theory Spec2Isabelle
  imports Main
begin

section \<open>Python values used by app.py\<close>

text \<open>
  Exceptions of the Python source are values: every function of the source that can raise
  returns \<open>error + 'a\<close>, with \<open>Inl\<close> for the exception.
\<close>

datatype error = OverflowError | KeyError | ValueError | AttributeError | DecodeError

subsection \<open>Characters and strings\<close>

text \<open>
  A Python \<open>str\<close> is modelled as a \<open>string\<close> whose characters are the code points
  below 256. \<open>py_isspace\<close> is \<open>str.isspace\<close> on one character (the set that \<open>str.strip\<close>
  removes and that \<open>\s\<close> matches), \<open>py_lower\<close> is \<open>str.lower\<close>.
\<close>

definition py_isspace :: "char \<Rightarrow> bool" where
  "py_isspace c = ((of_char c :: nat) \<in> {9, 10, 11, 12, 13, 28, 29, 30, 31, 32, 133, 160})"

definition lower_char :: "char \<Rightarrow> char" where
  "lower_char c =
     (let n = (of_char c :: nat)
      in if (65 \<le> n \<and> n \<le> 90) \<or> (192 \<le> n \<and> n \<le> 222 \<and> n \<noteq> 215)
         then char_of (n + 32) else c)"

definition py_lower :: "string \<Rightarrow> string" where
  "py_lower s = map lower_char s"

definition py_strip :: "string \<Rightarrow> string" where
  "py_strip s = rev (dropWhile py_isspace (rev (dropWhile py_isspace s)))"

subsection \<open>datetime.date\<close>

text \<open>
  A \<open>datetime.date\<close> is a year, a month and a day. Python only ever builds valid ones
  (\<open>valid_date\<close>): years 1 to 9999. The ordinal functions follow \<open>Lib/_pydatetime.py\<close>.
\<close>

datatype date = YMD (year: nat) (month: nat) (day: nat)

definition is_leap :: "nat \<Rightarrow> bool" where
  "is_leap y = (y mod 4 = 0 \<and> (y mod 100 \<noteq> 0 \<or> y mod 400 = 0))"

definition DAYS_IN_MONTH :: "nat list" where
  "DAYS_IN_MONTH = [0, 31, 28, 31, 30, 31, 30, 31, 31, 30, 31, 30, 31]"

definition DAYS_BEFORE_MONTH :: "nat list" where
  "DAYS_BEFORE_MONTH = [0, 0, 31, 59, 90, 120, 151, 181, 212, 243, 273, 304, 334]"

definition days_in_month :: "nat \<Rightarrow> nat \<Rightarrow> nat" where
  "days_in_month y m = (if m = 2 \<and> is_leap y then 29 else DAYS_IN_MONTH ! m)"

definition days_before_month :: "nat \<Rightarrow> nat \<Rightarrow> nat" where
  "days_before_month y m = DAYS_BEFORE_MONTH ! m + (if m > 2 \<and> is_leap y then 1 else 0)"

definition days_before_year :: "nat \<Rightarrow> nat" where
  "days_before_year y = (y - 1) * 365 + (y - 1) div 4 - (y - 1) div 100 + (y - 1) div 400"

definition valid_date :: "date \<Rightarrow> bool" where
  "valid_date d =
     (1 \<le> year d \<and> year d \<le> 9999 \<and> 1 \<le> month d \<and> month d \<le> 12 \<and>
      1 \<le> day d \<and> day d \<le> days_in_month (year d) (month d))"

definition MAXORDINAL :: int where
  "MAXORDINAL = 3652059"

definition toordinal :: "date \<Rightarrow> int" where
  "toordinal d = int (days_before_year (year d) + days_before_month (year d) (month d) + day d)"

definition ord2ymd :: "nat \<Rightarrow> date" where
  "ord2ymd n0 =
     (let n = n0 - 1;
          n400 = n div 146097; n = n mod 146097;
          y = n400 * 400 + 1;
          n100 = n div 36524; n = n mod 36524;
          n4 = n div 1461; n = n mod 1461;
          n1 = n div 365; n = n mod 365;
          y = y + n100 * 100 + n4 * 4 + n1
      in if n1 = 4 \<or> n100 = 4 then YMD (y - 1) 12 31
         else
           let leapyear = (n1 = 3 \<and> (n4 \<noteq> 24 \<or> n100 = 3));
               m = (n + 50) div 32;
               preceding = DAYS_BEFORE_MONTH ! m + (if m > 2 \<and> leapyear then 1 else 0)
           in if preceding > n
              then
                let m' = m - 1;
                    preceding' = preceding
                                 - (DAYS_IN_MONTH ! m' + (if m' = 2 \<and> leapyear then 1 else 0))
                in YMD y m' (n - preceding' + 1)
              else YMD y m (n - preceding + 1))"

text \<open>
  \<open>date + timedelta(days=n)\<close>: \<open>date.__add__\<close> adds to the ordinal and raises
  \<open>OverflowError\<close> outside \<open>1 .. MAXORDINAL\<close> (a \<open>timedelta\<close> too large to build raises
  the same exception before that).
\<close>

definition date_add_days :: "date \<Rightarrow> int \<Rightarrow> error + date" where
  "date_add_days d n =
     (let k = toordinal d + n
      in if 0 < k \<and> k \<le> MAXORDINAL then Inr (ord2ymd (nat k)) else Inl OverflowError)"

definition weekday :: "date \<Rightarrow> nat" where
  "weekday d = nat ((toordinal d + 6) mod 7)"

definition DAY_NAMES :: "string list" where
  "DAY_NAMES = [''Monday'', ''Tuesday'', ''Wednesday'', ''Thursday'', ''Friday'',
                ''Saturday'', ''Sunday'']"

text \<open>\<open>strftime("%A")\<close>: the English name of the day of the week.\<close>

definition weekday_name :: "date \<Rightarrow> string" where
  "weekday_name d = DAY_NAMES ! weekday d"

text \<open>\<open>str(d)\<close>, that is \<open>d.isoformat()\<close>: \<open>"%04d-%02d-%02d"\<close> of a valid date.\<close>

definition digit :: "nat \<Rightarrow> char" where
  "digit n = char_of (48 + n mod 10)"

definition isoformat :: "date \<Rightarrow> string" where
  "isoformat d =
     [digit (year d div 1000), digit (year d div 100), digit (year d div 10), digit (year d),
      CHR ''-'', digit (month d div 10), digit (month d),
      CHR ''-'', digit (day d div 10), digit (day d)]"

section \<open>Tables (pandas.DataFrame)\<close>

text \<open>
  A cell of a table is missing (\<open>NaN\<close>, \<open>pd.NA\<close>, \<open>NaT\<close>), a string or a date object.
  A table is its column labels and its rows; \<open>wf_df\<close> says every row has one cell per column.
\<close>

datatype cell = NA | Str string | DateV date

record dataframe =
  columns :: "string list"
  rows :: "cell list list"

definition wf_df :: "dataframe \<Rightarrow> bool" where
  "wf_df df = list_all (\<lambda>r. length r = length (columns df)) (rows df)"

definition COLUMNS :: "string list" where
  "COLUMNS = [''Date'', ''Weekday'', ''Name'', ''Activity'', ''Time'']"

text \<open>\<open>pd.DataFrame(columns=COLUMNS)\<close>\<close>

definition empty_df :: dataframe where
  "empty_df = \<lparr>columns = COLUMNS, rows = []\<rparr>"

text \<open>
  \<open>pd.to_datetime(x, errors="coerce")\<close> on one cell. How pandas reads a string as a
  timestamp is not part of the repository: \<open>P\<close> is that parser, \<open>None\<close> where it gives
  \<open>NaT\<close>. A missing cell gives \<open>NaT\<close>, a date object is kept.
\<close>

fun to_datetime :: "(string \<Rightarrow> date option) \<Rightarrow> cell \<Rightarrow> date option" where
  "to_datetime P NA = None"
| "to_datetime P (Str s) = P s"
| "to_datetime P (DateV d) = Some d"

text \<open>\<open>.dt.date\<close> and \<open>.dt.strftime("%A")\<close> on one element.\<close>

fun dt_date :: "date option \<Rightarrow> cell" where
  "dt_date None = NA"
| "dt_date (Some d) = DateV d"

fun dt_strftime_A :: "date option \<Rightarrow> cell" where
  "dt_strftime_A None = NA"
| "dt_strftime_A (Some d) = Str (weekday_name d)"

subsection \<open>The operations of sanitize_remote_df\<close>

text \<open>\<open>df.columns.str.lower().str.contains("^unnamed")\<close>\<close>

definition is_unnamed :: "string \<Rightarrow> bool" where
  "is_unnamed c = (take 7 (py_lower c) = ''unnamed'')"

text \<open>\<open>df.loc[:, mask]\<close>: the columns where the mask holds, in every row.\<close>

definition select_mask :: "bool list \<Rightarrow> 'a list \<Rightarrow> 'a list" where
  "select_mask keep xs = map snd (filter fst (zip keep xs))"

definition loc_columns :: "bool list \<Rightarrow> dataframe \<Rightarrow> dataframe" where
  "loc_columns keep df =
     \<lparr>columns = select_mask keep (columns df), rows = map (select_mask keep) (rows df)\<rparr>"

text \<open>\<open>df[col] = pd.NA\<close> for a label that is not a column yet.\<close>

definition add_column :: "string \<Rightarrow> cell \<Rightarrow> dataframe \<Rightarrow> dataframe" where
  "add_column col v df = \<lparr>columns = columns df @ [col], rows = map (\<lambda>r. r @ [v]) (rows df)\<rparr>"

definition ensure_column :: "dataframe \<Rightarrow> string \<Rightarrow> dataframe" where
  "ensure_column df col = (if col \<notin> set (columns df) then add_column col NA df else df)"

text \<open>
  \<open>df[labels]\<close>: for each label in turn every column that carries it (a label carried by two
  columns selects both); \<open>KeyError\<close> when a label is no column.
\<close>

definition positions :: "string \<Rightarrow> string list \<Rightarrow> nat list" where
  "positions c cs = filter (\<lambda>i. cs ! i = c) [0..<length cs]"

definition getitem_list :: "string list \<Rightarrow> dataframe \<Rightarrow> error + dataframe" where
  "getitem_list labels df =
     (if list_all (\<lambda>c. c \<in> set (columns df)) labels
      then let idx = concat (map (\<lambda>c. positions c (columns df)) labels)
           in Inr \<lparr>columns = map (\<lambda>i. columns df ! i) idx,
                   rows = map (\<lambda>r. map (\<lambda>i. r ! i) idx) (rows df)\<rparr>
      else Inl KeyError)"

text \<open>
  \<open>df[label]\<close> as the argument of \<open>pd.to_datetime\<close>: one column is a Series; a label
  carried by several columns gives a DataFrame, on which \<open>pd.to_datetime\<close> raises
  \<open>ValueError\<close> (it wants year, month and day columns).
\<close>

definition getitem_series :: "string \<Rightarrow> dataframe \<Rightarrow> error + cell list" where
  "getitem_series c df =
     (case positions c (columns df) of
        [] \<Rightarrow> Inl KeyError
      | [i] \<Rightarrow> Inr (map (\<lambda>r. r ! i) (rows df))
      | _ \<Rightarrow> Inl ValueError)"

text \<open>
  \<open>df[label] = series\<close>: the values replace every column that carries the label, row by
  row (a new label is appended as a column).
\<close>

definition setitem :: "string \<Rightarrow> cell list \<Rightarrow> dataframe \<Rightarrow> dataframe" where
  "setitem c vs df =
     (if c \<in> set (columns df)
      then \<lparr>columns = columns df,
            rows = map (\<lambda>(r, v). map (\<lambda>(n, x). if n = c then v else x) (zip (columns df) r))
                       (zip (rows df) vs)\<rparr>
      else \<lparr>columns = columns df @ [c], rows = map (\<lambda>(r, v). r @ [v]) (zip (rows df) vs)\<rparr>)"

subsection \<open>sanitize_remote_df\<close>

definition sanitize_remote_df ::
  "(string \<Rightarrow> date option) \<Rightarrow> dataframe option \<Rightarrow> error + dataframe" where
  "sanitize_remote_df P dfo =
     (case dfo of
        None \<Rightarrow> Inr empty_df
      | Some df0 \<Rightarrow>
          let df1 = loc_columns (map (\<lambda>c. \<not> is_unnamed c) (columns df0)) df0;
              df2 = foldl ensure_column df1 COLUMNS
          in case getitem_list COLUMNS df2 of
               Inl e \<Rightarrow> Inl e
             | Inr df3 \<Rightarrow>
                 (case getitem_series ''Date'' df3 of
                    Inl e \<Rightarrow> Inl e
                  | Inr s \<Rightarrow>
                      let df4 = setitem ''Date'' (map (\<lambda>x. dt_date (to_datetime P x)) s) df3
                      in case getitem_series ''Date'' df4 of
                           Inl e \<Rightarrow> Inl e
                         | Inr s' \<Rightarrow>
                             Inr (setitem ''Weekday''
                                    (map (\<lambda>x. dt_strftime_A (to_datetime P x)) s') df4)))"

subsection \<open>Reading a row by column label\<close>

text \<open>
  \<open>cell_of cols r c\<close> is the cell of row \<open>r\<close> under the label \<open>c\<close>, missing when no column
  carries the label. \<open>canonical_row\<close> is one row of a sanitized table, written out.
\<close>
definition cell_of :: "string list \<Rightarrow> cell list \<Rightarrow> string \<Rightarrow> cell" where
  "cell_of cols r c = (case map_of (zip cols r) c of None \<Rightarrow> NA | Some v \<Rightarrow> v)"

definition canonical_row :: "(string \<Rightarrow> date option) \<Rightarrow> string list \<Rightarrow> cell list \<Rightarrow> cell list" where
  "canonical_row P cols r =
     (let d = dt_date (to_datetime P (cell_of cols r ''Date''))
      in [d, dt_strftime_A (to_datetime P d),
          cell_of cols r ''Name'', cell_of cols r ''Activity'', cell_of cols r ''Time''])"

text \<open>
  The tables \<open>sanitize_remote_df\<close> is given: the null table, or a table whose column labels
  are distinct (a set of columns, as \<open>read_csv\<close> builds them) with one cell per column in
  every row.
\<close>

definition table_ok :: "dataframe option \<Rightarrow> bool" where
  "table_ok dfo = (case dfo of None \<Rightarrow> True | Some df \<Rightarrow> distinct (columns df) \<and> wf_df df)"

text \<open>A table as it may come from the store, with an index column and a stored weekday.\<close>

definition remote_example :: dataframe where
  "remote_example =
     \<lparr>columns = [''Unnamed: 0'', ''Name'', ''Date'', ''Weekday''],
      rows = [[Str ''0'', Str ''Vinoth'', Str ''2024-03-15'', Str ''Sunday''],
              [Str ''1'', Str ''Div'', Str ''soon'', Str ''Sunday'']]\<rparr>"

section \<open>expand_recurring_events\<close>

text \<open>\<open>range(n)\<close> for a Python int: empty when \<open>n\<close> is not positive.\<close>

definition py_range :: "int \<Rightarrow> int list" where
  "py_range n = map int [0..<nat n]"

text \<open>
  The body of the loop that computes \<open>new_date\<close>: \<open>timedelta(weeks=i)\<close> is
  \<open>timedelta(days=7*i)\<close>.
\<close>

definition new_date :: "string \<Rightarrow> date \<Rightarrow> int \<Rightarrow> error + date" where
  "new_date recurrence d i =
     (if recurrence = ''Daily'' then date_add_days d i
      else if recurrence = ''Weekly'' then date_add_days d (7 * i)
      else Inr d)"

text \<open>
  The \<open>for\<close> loop, with the list \<open>rows\<close> it appends to; an exception in the body ends
  the call.
\<close>

fun expand_loop ::
  "date \<Rightarrow> string \<Rightarrow> string \<Rightarrow> string \<Rightarrow> string \<Rightarrow> int list \<Rightarrow> cell list list
     \<Rightarrow> error + cell list list" where
  "expand_loop d name activity time recurrence [] acc = Inr acc"
| "expand_loop d name activity time recurrence (i # is) acc =
     (case new_date recurrence d i of
        Inl e \<Rightarrow> Inl e
      | Inr nd \<Rightarrow>
          expand_loop d name activity time recurrence is
            (acc @ [[DateV nd, Str (weekday_name nd), Str name, Str activity, Str time]]))"

definition expand_recurring_events ::
  "date \<Rightarrow> string \<Rightarrow> string \<Rightarrow> string \<Rightarrow> string \<Rightarrow> int \<Rightarrow> error + dataframe" where
  "expand_recurring_events d name activity time recurrence repeat_count =
     (case expand_loop d name activity time recurrence (py_range repeat_count) [] of
        Inl e \<Rightarrow> Inl e
      | Inr rs \<Rightarrow> Inr \<lparr>columns = COLUMNS, rows = rs\<rparr>)"

section \<open>CSV: to_csv and read_csv\<close>

text \<open>
  A CSV document is taken after its quoting and line breaks: the header and the records,
  each a list of field texts. How pandas writes and reads the quoting is not modelled; what
  is modelled is what a field text becomes.
\<close>

record csv =
  header :: "string list"
  records :: "string list list"

text \<open>
  \<open>df.to_csv(index=False)\<close>: a missing cell is written as the empty field, a date object
  as \<open>str\<close> of it.
\<close>

fun field_text :: "cell \<Rightarrow> string" where
  "field_text NA = ''''"
| "field_text (Str s) = s"
| "field_text (DateV d) = isoformat d"

definition to_csv :: "dataframe \<Rightarrow> csv" where
  "to_csv df = \<lparr>header = columns df, records = map (map field_text) (rows df)\<rparr>"

text \<open>
  \<open>pd.read_csv(..., dtype=str)\<close>. Every field comes back as a string, except the texts
  pandas reads as missing by default (\<open>NA_VALUES\<close>, the empty field among them).
\<close>

definition NA_VALUES :: "string list" where
  "NA_VALUES = ['''', ''#N/A'', ''#N/A N/A'', ''#NA'', ''-1.#IND'', ''-1.#QNAN'', ''-NaN'',
                ''-nan'', ''1.#IND'', ''1.#QNAN'', ''<NA>'', ''N/A'', ''NA'', ''NULL'', ''NaN'',
                ''None'', ''n/a'', ''nan'', ''null'']"

definition read_field :: "string \<Rightarrow> cell" where
  "read_field s = (if s \<in> set NA_VALUES then NA else Str s)"

text \<open>
  A document is regular when its header is not empty, its labels are distinct and not
  empty, and every record has one field per label. On a regular document \<open>read_csv\<close>
  keeps the labels and reads the fields. What pandas does on any other document (it
  relabels columns, pads short records, or raises) is its own code: \<open>irregular\<close> stands for
  it.
\<close>

definition regular :: "csv \<Rightarrow> bool" where
  "regular doc =
     (header doc \<noteq> [] \<and> distinct (header doc) \<and> [] \<notin> set (header doc) \<and>
      list_all (\<lambda>r. length r = length (header doc)) (records doc))"

definition read_csv :: "(csv \<Rightarrow> error + dataframe) \<Rightarrow> csv \<Rightarrow> error + dataframe" where
  "read_csv irregular doc =
     (if regular doc
      then Inr \<lparr>columns = header doc, rows = map (map read_field) (records doc)\<rparr>
      else irregular doc)"

text \<open>
  The first lines of \<open>update_schedule_on_github\<close>: the copy of the table whose Date cells
  are \<open>""\<close> when missing and \<open>str(d)\<close> otherwise, written as CSV.
  \<open>upload_df["Date"]\<close> raises \<open>KeyError\<close> on a table without that column.
\<close>

fun date_text :: "cell \<Rightarrow> cell" where
  "date_text NA = Str ''''"
| "date_text (Str s) = Str s"
| "date_text (DateV d) = Str (isoformat d)"

definition csv_content :: "dataframe \<Rightarrow> error + csv" where
  "csv_content df =
     (case getitem_series ''Date'' df of
        Inl e \<Rightarrow> Inl e
      | Inr s \<Rightarrow> Inr (to_csv (setitem ''Date'' (map date_text s) df)))"

subsection \<open>A reader of ISO dates\<close>

text \<open>
  \<open>parse_iso\<close> reads exactly the texts \<open>YYYY-MM-DD\<close> of valid dates. It is one instance of
  the parser \<open>P\<close> of \<open>to_datetime\<close>, used where a concrete parser is needed.
\<close>

definition is_digit :: "char \<Rightarrow> bool" where
  "is_digit c = (48 \<le> (of_char c :: nat) \<and> (of_char c :: nat) \<le> 57)"

definition digit_val :: "char \<Rightarrow> nat" where
  "digit_val c = of_char c - 48"

definition number :: "string \<Rightarrow> nat" where
  "number s = foldl (\<lambda>a c. 10 * a + digit_val c) 0 s"

definition parse_iso :: "string \<Rightarrow> date option" where
  "parse_iso s =
     (if length s = 10 \<and> s ! 4 = CHR ''-'' \<and> s ! 7 = CHR ''-'' \<and>
         list_all is_digit (take 4 s @ take 2 (drop 5 s) @ take 2 (drop 8 s))
      then let d = YMD (number (take 4 s)) (number (take 2 (drop 5 s))) (number (take 2 (drop 8 s)))
           in if valid_date d then Some d else None
      else None)"

text \<open>
  A canonical table: the five columns, a Date cell missing or a valid date object, every
  other cell missing or a string.
\<close>

definition canonical_cells :: "cell list \<Rightarrow> bool" where
  "canonical_cells r =
     (case r of
        [d, w, n, a, t] \<Rightarrow>
          (case d of NA \<Rightarrow> True | DateV x \<Rightarrow> valid_date x | Str _ \<Rightarrow> False) \<and>
          list_all (\<lambda>c. case c of DateV _ \<Rightarrow> False | _ \<Rightarrow> True) [w, n, a, t]
      | _ \<Rightarrow> False)"

definition canonical :: "dataframe \<Rightarrow> bool" where
  "canonical df = (columns df = COLUMNS \<and> list_all canonical_cells (rows df))"

text \<open>What \<open>read_csv\<close> makes of a cell that went through \<open>to_csv\<close>.\<close>

definition reread :: "cell \<Rightarrow> cell" where
  "reread c = read_field (field_text c)"

text \<open>
  The ordinal of the last date \<open>expand_recurring_events\<close> computes, and the row it builds
  for the date \<open>x\<close>.
\<close>

definition last_ordinal :: "string \<Rightarrow> date \<Rightarrow> int \<Rightarrow> int" where
  "last_ordinal recurrence d n =
     toordinal d + (if recurrence = ''Daily'' then n - 1
                    else if recurrence = ''Weekly'' then 7 * (n - 1) else 0)"

definition event_row :: "string \<Rightarrow> string \<Rightarrow> string \<Rightarrow> date \<Rightarrow> cell list" where
  "event_row name activity time x =
     [DateV x, Str (weekday_name x), Str name, Str activity, Str time]"

definition round_trip ::
  "(string \<Rightarrow> date option) \<Rightarrow> (csv \<Rightarrow> error + dataframe) \<Rightarrow> dataframe \<Rightarrow> error + dataframe" where
  "round_trip P irregular T =
     (case csv_content T of
        Inl e \<Rightarrow> Inl e
      | Inr doc \<Rightarrow>
          (case read_csv irregular doc of
             Inl e \<Rightarrow> Inl e
           | Inr T' \<Rightarrow> sanitize_remote_df P (Some T')))"

definition reread_text_cells :: "cell list \<Rightarrow> cell list" where
  "reread_text_cells r =
     (case r of [d, w, n, a, t] \<Rightarrow> [d, w, reread n, reread a, reread t] | _ \<Rightarrow> r)"

section \<open>The remote store client\<close>

subsection \<open>JSON values and HTTP\<close>

text \<open>
  The value \<open>r.json()\<close> returns: \<open>JNull\<close> is Python's \<open>None\<close>, an object is a \<open>dict\<close>.
  \<open>truthy\<close> is the test Python makes in \<open>if x:\<close>; \<open>dict_get\<close> is \<open>d.get(k)\<close> and
  \<open>dict_get_default\<close> is \<open>d.get(k, v)\<close>.
\<close>

datatype json = JNull | JBool bool | JNum int | JStr string | JArr "json list"
  | JObj "(string \<times> json) list"

fun truthy :: "json \<Rightarrow> bool" where
  "truthy JNull = False"
| "truthy (JBool b) = b"
| "truthy (JNum n) = (n \<noteq> 0)"
| "truthy (JStr s) = (s \<noteq> [])"
| "truthy (JArr xs) = (xs \<noteq> [])"
| "truthy (JObj kvs) = (kvs \<noteq> [])"

definition dict_get_default :: "(string \<times> json) list \<Rightarrow> string \<Rightarrow> json \<Rightarrow> json" where
  "dict_get_default d k v = (case map_of d k of None \<Rightarrow> v | Some x \<Rightarrow> x)"

definition dict_get :: "(string \<times> json) list \<Rightarrow> string \<Rightarrow> json" where
  "dict_get d k = dict_get_default d k JNull"

text \<open>
  A request as \<open>requests.get\<close> and \<open>requests.put\<close> send it, and the part of the answer the
  source reads: \<open>r.status_code\<close>, \<open>r.json()\<close> (the store answers with a JSON object) and
  \<open>r.text\<close>.
\<close>

datatype http_method = GET | PUT

record request =
  http_method :: http_method
  url :: string
  headers :: "(string \<times> string) list"
  payload :: "(string \<times> json) list"

record response =
  status_code :: int
  json_body :: "(string \<times> json) list"
  text_body :: string

text \<open>
  The store is outside the program: \<open>serve\<close> answers a request in a state of the store and
  gives the next state. The world is the store together with the requests sent so far.
\<close>

record 's world =
  store :: 's
  sent :: "request list"

definition http ::
  "('s \<Rightarrow> request \<Rightarrow> response \<times> 's) \<Rightarrow> request \<Rightarrow> 's world \<Rightarrow> response \<times> 's world" where
  "http serve rq w =
     (let (r, s') = serve (store w) rq in (r, \<lparr>store = s', sent = sent w @ [rq]\<rparr>))"

definition API_URL :: string where
  "API_URL = ''https://api.github.com/repos/DivKumR/Mypersonal_SchedulerApp/contents/schedule.csv''"

text \<open>
  The credential is \<open>None\<close> or a string; \<open>has_token\<close> is the test \<open>if token\<close>.
  \<open>auth_headers\<close> is \<open>{"Authorization": f"token {token}"} if token else {}\<close>.
\<close>

definition has_token :: "string option \<Rightarrow> bool" where
  "has_token token = (case token of None \<Rightarrow> False | Some t \<Rightarrow> t \<noteq> [])"

definition auth_headers :: "string option \<Rightarrow> (string \<times> string) list" where
  "auth_headers token =
     (case token of
        Some t \<Rightarrow> if t \<noteq> [] then [(''Authorization'', ''token '' @ t)] else []
      | None \<Rightarrow> [])"

definition get_request :: "string option \<Rightarrow> request" where
  "get_request token =
     \<lparr>http_method = GET, url = API_URL, headers = auth_headers token, payload = []\<rparr>"

subsection \<open>fetch_remote_csv_via_api\<close>

text \<open>
  \<open>decode\<close> stands for \<open>base64.b64decode(content_b64).decode("utf-8")\<close> followed by the
  reading of the CSV text into its fields: it raises on a payload that is no base64 text,
  no UTF-8 or no CSV. Everything raised inside the \<open>try\<close> gives the empty table.
\<close>

definition fetch_remote_csv_via_api ::
  "(json \<Rightarrow> error + csv) \<Rightarrow> (csv \<Rightarrow> error + dataframe) \<Rightarrow>
   ('s \<Rightarrow> request \<Rightarrow> response \<times> 's) \<Rightarrow> string option \<Rightarrow> 's world
     \<Rightarrow> (dataframe option \<times> json) \<times> 's world" where
  "fetch_remote_csv_via_api decode irregular serve token w =
     (let (r, w') = http serve (get_request token) w
      in if status_code r = 200
         then
           let j = json_body r;
               sha = dict_get j ''sha'';
               content_b64 = dict_get_default j ''content'' (JStr '''');
               df = (case decode content_b64 of
                       Inl e \<Rightarrow> empty_df
                     | Inr doc \<Rightarrow>
                         (case read_csv irregular doc of
                            Inl e \<Rightarrow> empty_df
                          | Inr t \<Rightarrow> t))
           in ((Some df, sha), w')
         else ((None, JNull), w'))"

subsection \<open>get_github_sha and update_schedule_on_github\<close>

definition get_github_sha ::
  "('s \<Rightarrow> request \<Rightarrow> response \<times> 's) \<Rightarrow> string option \<Rightarrow> 's world \<Rightarrow> json \<times> 's world" where
  "get_github_sha serve token w =
     (let (r, w') = http serve (get_request token) w
      in if status_code r = 200 then (dict_get (json_body r) ''sha'', w') else (JNull, w'))"

text \<open>
  The payload of the PUT: the message, the encoded content, and the \<open>sha\<close> key under
  \<open>if sha:\<close>. \<open>encode\<close> stands for the writing of the CSV text and
  \<open>base64.b64encode(csv_content.encode("utf-8")).decode("utf-8")\<close>.
\<close>

definition put_payload :: "string \<Rightarrow> string \<Rightarrow> json \<Rightarrow> (string \<times> json) list" where
  "put_payload message encoded sha =
     [(''message'', JStr message), (''content'', JStr encoded)]
     @ (if truthy sha then [(''sha'', sha)] else [])"

definition put_request :: "string \<Rightarrow> (string \<times> json) list \<Rightarrow> request" where
  "put_request t p =
     \<lparr>http_method = PUT, url = API_URL,
      headers = [(''Authorization'', ''token '' @ t), (''Accept'', ''application/vnd.github.v3+json'')],
      payload = p\<rparr>"

text \<open>
  The result is \<open>(ok, status_code, response_text)\<close>; the status is \<open>None\<close> when nothing was
  sent. An exception of the serialisation ends the call before any request.
\<close>

definition update_schedule_on_github ::
  "(csv \<Rightarrow> string) \<Rightarrow> ('s \<Rightarrow> request \<Rightarrow> response \<times> 's) \<Rightarrow> dataframe \<Rightarrow> string option
     \<Rightarrow> string \<Rightarrow> 's world \<Rightarrow> (error + bool \<times> int option \<times> string) \<times> 's world" where
  "update_schedule_on_github encode serve df token message w =
     (case token of
        None \<Rightarrow> (Inr (False, None, ''Missing token''), w)
      | Some t \<Rightarrow>
          if t = [] then (Inr (False, None, ''Missing token''), w)
          else
            (case csv_content df of
               Inl e \<Rightarrow> (Inl e, w)
             | Inr doc \<Rightarrow>
                 let encoded = encode doc;
                     (sha, w1) = get_github_sha serve token w;
                     p = put_payload message encoded sha;
                     (r, w2) = http serve (put_request t p) w1
                 in (Inr (status_code r = 200 \<or> status_code r = 201,
                          Some (status_code r), text_body r), w2)))"

subsection \<open>A store that checks version tokens\<close>

text \<open>
  Modelled from the spec: the hosted store itself is not in the repository. The spec's
  Remote Blob State is content plus an opaque version token; a write must carry the token
  of the stored content and a stale or missing token is rejected as a conflict; a write to
  a blob that does not exist yet carries none. \<open>next_sha\<close> gives the token of new content.
\<close>

record blob =
  content :: string
  version :: string

definition mock_get :: "blob option \<Rightarrow> response" where
  "mock_get b =
     (case b of
        None \<Rightarrow> \<lparr>status_code = 404, json_body = [(''message'', JStr ''Not Found'')],
                  text_body = ''Not Found''\<rparr>
      | Some x \<Rightarrow> \<lparr>status_code = 200,
                    json_body = [(''sha'', JStr (version x)), (''content'', JStr (content x))],
                    text_body = content x\<rparr>)"

definition mock_put ::
  "(string \<Rightarrow> string) \<Rightarrow> blob option \<Rightarrow> (string \<times> json) list \<Rightarrow> response \<times> blob option" where
  "mock_put next_sha b p =
     (case dict_get p ''content'' of
        JStr c \<Rightarrow>
          (case b of
             None \<Rightarrow>
               if map_of p ''sha'' = None
               then (\<lparr>status_code = 201, json_body = [], text_body = ''created''\<rparr>,
                     Some \<lparr>content = c, version = next_sha c\<rparr>)
               else (\<lparr>status_code = 409, json_body = [], text_body = ''conflict''\<rparr>, b)
           | Some x \<Rightarrow>
               if map_of p ''sha'' = Some (JStr (version x))
               then (\<lparr>status_code = 200, json_body = [], text_body = ''updated''\<rparr>,
                     Some \<lparr>content = c, version = next_sha c\<rparr>)
               else (\<lparr>status_code = 409, json_body = [], text_body = ''conflict''\<rparr>, b))
      | _ \<Rightarrow> (\<lparr>status_code = 422, json_body = [], text_body = ''invalid''\<rparr>, b))"

definition mock_store ::
  "(string \<Rightarrow> string) \<Rightarrow> blob option \<Rightarrow> request \<Rightarrow> response \<times> blob option" where
  "mock_store next_sha b rq =
     (if headers rq = []
      then (\<lparr>status_code = 401, json_body = [], text_body = ''unauthorized''\<rparr>, b)
      else case http_method rq of
             GET \<Rightarrow> (mock_get b, b)
           | PUT \<Rightarrow> mock_put next_sha b (payload rq))"

text \<open>A table with an event that has no time, as \<open>parse_event\<close> builds it.\<close>

definition untimed_example :: dataframe where
  "untimed_example =
     \<lparr>columns = COLUMNS,
      rows = [[DateV (YMD 2024 3 15), Str ''Friday'', Str ''Vinoth'', Str ''gym'', Str '''']]\<rparr>"

definition timed_example :: dataframe where
  "timed_example =
     \<lparr>columns = COLUMNS,
      rows = [[DateV (YMD 2024 3 15), Str ''Friday'', Str ''Vinoth'', Str ''gym'', Str ''6pm''],
              [NA, NA, Str ''Div'', NA, Str ''noon'']]\<rparr>"

section \<open>The delete step\<close>

text \<open>
  \<open>row[label]\<close> inside \<open>apply(..., axis=1)\<close>, and \<open>f"{x}"\<close> of a cell: a missing date is
  printed \<open>NaT\<close>, any other missing cell \<open>nan\<close>.
\<close>

definition row_get :: "string list \<Rightarrow> cell list \<Rightarrow> string \<Rightarrow> error + cell" where
  "row_get cols r c = (case map_of (zip cols r) c of None \<Rightarrow> Inl KeyError | Some v \<Rightarrow> Inr v)"

fun format_cell :: "string \<Rightarrow> cell \<Rightarrow> string" where
  "format_cell c NA = (if c = ''Date'' then ''NaT'' else ''nan'')"
| "format_cell c (Str s) = s"
| "format_cell c (DateV d) = isoformat d"

definition format_field :: "string list \<Rightarrow> cell list \<Rightarrow> string \<Rightarrow> error + string" where
  "format_field cols r c =
     (case row_get cols r c of Inl e \<Rightarrow> Inl e | Inr v \<Rightarrow> Inr (format_cell c v))"

text \<open>
  The label of a row:
  \<open>f"{row['Date']} | {row['Weekday']} | {row['Name']} - {row['Activity']} @ {row['Time']}"\<close>
\<close>

definition row_label :: "string list \<Rightarrow> cell list \<Rightarrow> error + string" where
  "row_label cols r =
     (case format_field cols r ''Date'' of Inl e \<Rightarrow> Inl e | Inr d \<Rightarrow>
      case format_field cols r ''Weekday'' of Inl e \<Rightarrow> Inl e | Inr w \<Rightarrow>
      case format_field cols r ''Name'' of Inl e \<Rightarrow> Inl e | Inr n \<Rightarrow>
      case format_field cols r ''Activity'' of Inl e \<Rightarrow> Inl e | Inr a \<Rightarrow>
      case format_field cols r ''Time'' of Inl e \<Rightarrow> Inl e | Inr t \<Rightarrow>
        Inr (d @ '' | '' @ w @ '' | '' @ n @ '' - '' @ a @ '' @ '' @ t))"

text \<open>The labels of all rows, the first exception ending the \<open>apply\<close>.\<close>

fun apply_rows :: "(cell list \<Rightarrow> error + string) \<Rightarrow> cell list list \<Rightarrow> error + cell list" where
  "apply_rows f [] = Inr []"
| "apply_rows f (r # rs) =
     (case f r of
        Inl e \<Rightarrow> Inl e
      | Inr l \<Rightarrow> (case apply_rows f rs of Inl e \<Rightarrow> Inl e | Inr ls \<Rightarrow> Inr (Str l # ls)))"

text \<open>
  \<open>latest_df["Label"] = latest_df.apply(..., axis=1)\<close>. On a table without rows
  \<open>apply\<close> returns no Series but an empty table with the five columns, and pandas refuses
  to store a table of several columns under one label (\<open>ValueError\<close>).
\<close>

definition with_label :: "dataframe \<Rightarrow> error + dataframe" where
  "with_label df =
     (if rows df = [] then Inl ValueError
      else case apply_rows (row_label (columns df)) (rows df) of
             Inl e \<Rightarrow> Inl e
           | Inr ls \<Rightarrow> Inr (setitem ''Label'' ls df))"

text \<open>
  \<open>df[df["Label"] == selected_label]\<close> and \<open>df[df["Label"] != selected_label]\<close>: the rows
  where the mask holds. The selection is \<open>None\<close> when the select box has no option.
\<close>

definition label_mask :: "bool \<Rightarrow> string option \<Rightarrow> cell list \<Rightarrow> bool list" where
  "label_mask eq sel ls = map (\<lambda>c. (case sel of None \<Rightarrow> False | Some l \<Rightarrow> c = Str l) = eq) ls"

definition loc_rows :: "bool list \<Rightarrow> dataframe \<Rightarrow> dataframe" where
  "loc_rows keep df = \<lparr>columns = columns df, rows = select_mask keep (rows df)\<rparr>"

text \<open>
  The handler of the delete button up to the table it uploads: \<open>None\<close> is the branch
  "No matching event found.", \<open>Some updated_df\<close> the table passed to
  \<open>update_schedule_on_github\<close>. \<open>labelled\<close> is \<open>latest_df\<close> with its Label column.
\<close>

definition delete_selected :: "dataframe \<Rightarrow> string option \<Rightarrow> error + dataframe option" where
  "delete_selected labelled sel =
     (case getitem_series ''Label'' labelled of
        Inl e \<Rightarrow> Inl e
      | Inr ls \<Rightarrow>
          let to_delete = loc_rows (label_mask True sel ls) labelled
          in if rows to_delete = [] then Inr None
             else
               let kept = loc_rows (label_mask False sel ls) labelled
               in Inr (Some (loc_columns (map (\<lambda>c. c \<noteq> ''Label'') (columns kept)) kept)))"

definition delete_event :: "dataframe \<Rightarrow> string option \<Rightarrow> error + dataframe option" where
  "delete_event latest_df sel =
     (case with_label latest_df of
        Inl e \<Rightarrow> Inl e
      | Inr labelled \<Rightarrow> delete_selected labelled sel)"

text \<open>A fetched table in which the same event was added twice.\<close>

definition duplicate_example :: dataframe where
  "duplicate_example =
     \<lparr>columns = COLUMNS,
      rows = [[DateV (YMD 2024 3 15), Str ''Friday'', Str ''Vinoth'', Str ''gym'', Str ''6pm''],
              [NA, NA, Str ''Div'', NA, Str ''noon''],
              [DateV (YMD 2024 3 15), Str ''Friday'', Str ''Vinoth'', Str ''gym'', Str ''6pm'']]\<rparr>"

section \<open>parse_event\<close>

subsection \<open>The regular expression\<close>

text \<open>
  The part of Python's \<open>re\<close> that the pattern of \<open>parse_event\<close> uses. A character class is
  a letter (matched without regard to case, as \<open>re.IGNORECASE\<close> does for the letters of the
  pattern), \<open>\s\<close>, or the dot, which matches everything but a newline. A repetition
  \<open>+\<close> or \<open>+?\<close> is over one character class.
\<close>

datatype charclass = Letter char | Space | Dot

datatype regex =
    Atom charclass
  | Plus charclass
  | LazyPlus charclass
  | Seq regex regex
  | Opt regex
  | Group nat regex
  | EndOfString

fun in_class :: "charclass \<Rightarrow> char \<Rightarrow> bool" where
  "in_class (Letter l) c = (lower_char c = l)"
| "in_class Space c = py_isspace c"
| "in_class Dot c = (c \<noteq> CHR 0x0A)"

text \<open>
  The remainders of the input after one or more characters of a class, in the order a
  backtracking matcher tries them: the shortest match first for \<open>+?\<close>, the longest first
  for \<open>+\<close>.
\<close>

fun plus_lazy :: "(char \<Rightarrow> bool) \<Rightarrow> string \<Rightarrow> string list" where
  "plus_lazy p [] = []"
| "plus_lazy p (c # cs) = (if p c then cs # plus_lazy p cs else [])"

fun plus_greedy :: "(char \<Rightarrow> bool) \<Rightarrow> string \<Rightarrow> string list" where
  "plus_greedy p [] = []"
| "plus_greedy p (c # cs) = (if p c then plus_greedy p cs @ [cs] else [])"

text \<open>
  A state of the matcher is the rest of the input and the groups captured so far, the
  latest first. \<open>rmatch r st\<close> lists the states in which a match of \<open>r\<close> from \<open>st\<close> can end,
  in the order in which Python's matcher would try them: the first state of the list from
  which the rest of the pattern matches is the one Python takes. An optional group is
  tried before it is skipped; \<open>$\<close> holds at the end of the input and before a final
  newline.
\<close>

type_synonym mstate = "string \<times> (nat \<times> string) list"

fun rmatch :: "regex \<Rightarrow> mstate \<Rightarrow> mstate list" where
  "rmatch (Atom k) (s, g) =
     (case s of [] \<Rightarrow> [] | c # cs \<Rightarrow> if in_class k c then [(cs, g)] else [])"
| "rmatch (Plus k) (s, g) = map (\<lambda>s'. (s', g)) (plus_greedy (in_class k) s)"
| "rmatch (LazyPlus k) (s, g) = map (\<lambda>s'. (s', g)) (plus_lazy (in_class k) s)"
| "rmatch (Seq a b) st = concat (map (rmatch b) (rmatch a st))"
| "rmatch (Opt a) st = rmatch a st @ [st]"
| "rmatch (Group n a) (s, g) =
     map (\<lambda>(s', g'). (s', (n, take (length s - length s') s) # g')) (rmatch a (s, g))"
| "rmatch EndOfString (s, g) = (if s = [] \<or> s = [CHR 0x0A] then [(s, g)] else [])"

text \<open>
  \<open>re.search\<close>: the first match at the leftmost position where the pattern matches; the
  result is the captured groups. \<open>group\<close> is \<open>m.group(n)\<close>, \<open>None\<close> for a group that took
  no part in the match.
\<close>

fun re_search :: "regex \<Rightarrow> string \<Rightarrow> (nat \<times> string) list option" where
  "re_search r [] = (case rmatch r ([], []) of [] \<Rightarrow> None | (s', g) # _ \<Rightarrow> Some g)"
| "re_search r (c # cs) =
     (case rmatch r (c # cs, []) of [] \<Rightarrow> re_search r cs | (s', g) # _ \<Rightarrow> Some g)"

definition group :: "(nat \<times> string) list \<Rightarrow> nat \<Rightarrow> string option" where
  "group g n = map_of g n"

text \<open>A word of the pattern, letter by letter, followed by the rest of the pattern.\<close>

fun word :: "string \<Rightarrow> regex \<Rightarrow> regex" where
  "word [] r = r"
| "word (c # cs) r = Seq (Atom (Letter c)) (word cs r)"

text \<open>
  \<open>add\s+(.+?)\s+(?:on\s+(.+?)\s+)?for\s+(.+?)(?:\s+at\s+(.+))?$\<close>
\<close>

definition ON_CLAUSE :: regex where
  "ON_CLAUSE = word ''on'' (Seq (Plus Space) (Seq (Group 2 (LazyPlus Dot)) (Plus Space)))"

definition AT_CLAUSE :: regex where
  "AT_CLAUSE = Seq (Plus Space) (word ''at'' (Seq (Plus Space) (Group 4 (Plus Dot))))"

definition FOR_CLAUSE :: regex where
  "FOR_CLAUSE =
     word ''for'' (Seq (Plus Space) (Seq (Group 3 (LazyPlus Dot)) (Seq (Opt AT_CLAUSE) EndOfString)))"

definition PATTERN :: regex where
  "PATTERN =
     word ''add'' (Seq (Plus Space) (Seq (Group 1 (LazyPlus Dot))
       (Seq (Plus Space) (Seq (Opt ON_CLAUSE) FOR_CLAUSE))))"

subsection \<open>The function\<close>

text \<open>The dictionary \<open>parse_event\<close> returns.\<close>

record event =
  Date :: date
  Weekday :: string
  Name :: string
  Activity :: string
  Time :: string

text \<open>\<open>x.strip()\<close> of a group: \<open>AttributeError\<close> on \<open>None\<close>.\<close>

definition strip_group :: "string option \<Rightarrow> error + string" where
  "strip_group x = (case x of None \<Rightarrow> Inl AttributeError | Some s \<Rightarrow> Inr (py_strip s))"

text \<open>\<open>x.strip() if x else default\<close>\<close>

definition strip_or :: "string option \<Rightarrow> string \<Rightarrow> string" where
  "strip_or x dflt =
     (case x of None \<Rightarrow> dflt | Some s \<Rightarrow> if s = [] then dflt else py_strip s)"

text \<open>
  \<open>dateparser.parse\<close> is outside the repository: \<open>resolve\<close> stands for it followed by
  \<open>.date()\<close>, \<open>None\<close> when the phrase is not understood. The result of \<open>parse_event\<close> is
  \<open>None\<close> or the dictionary.
\<close>

definition parse_event :: "(string \<Rightarrow> date option) \<Rightarrow> string \<Rightarrow> error + event option" where
  "parse_event resolve text =
     (case re_search PATTERN text of
        None \<Rightarrow> Inr None
      | Some g \<Rightarrow>
          (case strip_group (group g 1) of
             Inl e \<Rightarrow> Inl e
           | Inr activity \<Rightarrow>
               let date_phrase = strip_or (group g 2) ''today''
               in case strip_group (group g 3) of
                    Inl e \<Rightarrow> Inl e
                  | Inr name \<Rightarrow>
                      let time = strip_or (group g 4) ''''
                      in case resolve date_phrase of
                           None \<Rightarrow> Inr None
                         | Some d \<Rightarrow>
                             Inr (Some \<lparr>Date = d, Weekday = weekday_name d, Name = name,
                                        Activity = activity, Time = time\<rparr>)))"

subsection \<open>Notions used to state what parse_event accepts\<close>

text \<open>
  \<open>binds n r\<close>: every match of \<open>r\<close> goes through group \<open>n\<close>. \<open>starts_with w s\<close>: the text
  \<open>s\<close> begins with the word \<open>w\<close> in upper or lower case; \<open>contains_word w s\<close>: the word
  occurs somewhere in \<open>s\<close>.
\<close>

fun binds :: "nat \<Rightarrow> regex \<Rightarrow> bool" where
  "binds n (Group m a) = (n = m \<or> binds n a)"
| "binds n (Seq a b) = (binds n a \<or> binds n b)"
| "binds n (Atom k) = False"
| "binds n (Plus k) = False"
| "binds n (LazyPlus k) = False"
| "binds n (Opt a) = False"
| "binds n EndOfString = False"



text \<open>
  \<open>first_match r st\<close> is the state in which the first match of \<open>r\<close> from \<open>st\<close> ends. The parts
  of a sentence of the grammar: a keyword in any case, a blank (one or more whitespace
  characters), a single word (one or more characters, none of them whitespace) and a time phrase
  (any text on one line that does not begin with whitespace).
\<close>

definition first_match :: "regex \<Rightarrow> mstate \<Rightarrow> mstate option" where
  "first_match r st = (case rmatch r st of [] \<Rightarrow> None | x # _ \<Rightarrow> Some x)"

definition keyword :: "string \<Rightarrow> string \<Rightarrow> bool" where
  "keyword k w = (py_lower w = k)"

definition blank :: "string \<Rightarrow> bool" where
  "blank b = (b \<noteq> [] \<and> list_all py_isspace b)"

definition one_word :: "string \<Rightarrow> bool" where
  "one_word a = (a \<noteq> [] \<and> list_all (\<lambda>c. \<not> py_isspace c) a)"

definition time_phrase :: "string \<Rightarrow> bool" where
  "time_phrase t = (t \<noteq> [] \<and> \<not> py_isspace (hd t) \<and> list_all (\<lambda>c. c \<noteq> CHR 0x0A) t)"

text \<open>
  The optional clauses of a sentence: \<open>on <date-phrase>\<close> with the blank after it, and
  \<open>at <time-phrase>\<close> with the blank before it.
\<close>

fun on_clause :: "(string \<times> string \<times> string \<times> string) option \<Rightarrow> string" where
  "on_clause None = []"
| "on_clause (Some (k, b, p, b')) = k @ b @ p @ b'"

fun on_clause_ok :: "(string \<times> string \<times> string \<times> string) option \<Rightarrow> bool" where
  "on_clause_ok None = True"
| "on_clause_ok (Some (k, b, p, b')) = (keyword ''on'' k \<and> blank b \<and> one_word p \<and> blank b')"

fun date_phrase_of :: "(string \<times> string \<times> string \<times> string) option \<Rightarrow> string" where
  "date_phrase_of None = ''today''"
| "date_phrase_of (Some (k, b, p, b')) = p"

fun at_clause :: "(string \<times> string \<times> string \<times> string) option \<Rightarrow> string" where
  "at_clause None = []"
| "at_clause (Some (b, k, b', t)) = b @ k @ b' @ t"

fun at_clause_ok :: "(string \<times> string \<times> string \<times> string) option \<Rightarrow> bool" where
  "at_clause_ok None = True"
| "at_clause_ok (Some (b, k, b', t)) = (blank b \<and> keyword ''at'' k \<and> blank b' \<and> time_phrase t)"

fun time_of :: "(string \<times> string \<times> string \<times> string) option \<Rightarrow> string" where
  "time_of None = []"
| "time_of (Some (b, k, b', t)) = py_strip t"

text \<open>\<open>groups_repeat r\<close>: every group of \<open>r\<close> encloses a repetition, so it captures at least one character.\<close>

fun groups_repeat :: "regex \<Rightarrow> bool" where
  "groups_repeat (Group n (Plus k)) = True"
| "groups_repeat (Group n (LazyPlus k)) = True"
| "groups_repeat (Group n a) = False"
| "groups_repeat (Seq a b) = (groups_repeat a \<and> groups_repeat b)"
| "groups_repeat (Opt a) = groups_repeat a"
| "groups_repeat a = True"

section \<open>Properties of sanitize_remote_df\<close>

lemma select_mask_filter: "select_mask (map Q xs) xs = filter Q xs"
  by (induction xs) (auto simp: select_mask_def)

lemma zip_select_mask:
  "length r = length cols \<Longrightarrow>
   zip (select_mask (map Q cols) cols) (select_mask (map Q cols) r) = filter (\<lambda>(c, v). Q c) (zip cols r)"
  by (induction r cols rule: list_induct2) (auto simp: select_mask_def)

lemma map_of_filter_key:
  "map_of (filter (\<lambda>(c, v). Q c) xs) c = (if Q c then map_of xs c else None)"
  by (induction xs) auto

lemma cell_of_select_mask:
  "length r = length cols \<Longrightarrow> Q c \<Longrightarrow>
   cell_of (select_mask (map Q cols) cols) (select_mask (map Q cols) r) c = cell_of cols r c"
  by (simp add: cell_of_def zip_select_mask map_of_filter_key)

lemma length_select_mask:
  "length r = length cols \<Longrightarrow> length (select_mask (map Q cols) r) = length (select_mask (map Q cols) cols)"
  by (induction r cols rule: list_induct2) (auto simp: select_mask_def)

lemma cell_of_append_NA:
  "length r = length cols \<Longrightarrow> cell_of (cols @ ex) (r @ replicate (length ex) NA) c = cell_of cols r c"
proof -
  assume len: "length r = length cols"
  have "map_of (zip ex (replicate (length ex) NA)) c = (if c \<in> set ex then Some NA else None)"
    by (induction ex) auto
  with len show ?thesis
    by (auto simp: cell_of_def map_add_def split: option.splits dest: map_of_SomeD set_zip_leftD)
qed

lemma foldl_ensure_column:
  "\<exists>ex. columns (foldl ensure_column df ls) = columns df @ ex \<and>
        rows (foldl ensure_column df ls) = map (\<lambda>r. r @ replicate (length ex) NA) (rows df) \<and>
        set ex = set ls - set (columns df) \<and> distinct ex"
proof (induction ls arbitrary: df)
  case Nil
  show ?case by (rule exI[of _ "[]"]) simp
next
  case (Cons l ls)
  show ?case
  proof (cases "l \<in> set (columns df)")
    case True
    then have e: "ensure_column df l = df" by (simp add: ensure_column_def)
    from Cons.IH[of df] obtain ex where
      "columns (foldl ensure_column df ls) = columns df @ ex"
      "rows (foldl ensure_column df ls) = map (\<lambda>r. r @ replicate (length ex) NA) (rows df)"
      "set ex = set ls - set (columns df)" "distinct ex" by blast
    with True e show ?thesis by (intro exI[of _ ex]) auto
  next
    case False
    let ?df = "ensure_column df l"
    from False have c: "columns ?df = columns df @ [l]" and r: "rows ?df = map (\<lambda>r. r @ [NA]) (rows df)"
      by (simp_all add: ensure_column_def add_column_def)
    from Cons.IH[of ?df] obtain ex where ex:
      "columns (foldl ensure_column ?df ls) = columns ?df @ ex"
      "rows (foldl ensure_column ?df ls) = map (\<lambda>r. r @ replicate (length ex) NA) (rows ?df)"
      "set ex = set ls - set (columns ?df)" "distinct ex" by blast
    show ?thesis
    proof (intro exI[of _ "l # ex"] conjI)
      show "columns (foldl ensure_column df (l # ls)) = columns df @ l # ex"
        using ex(1) c by simp
      show "rows (foldl ensure_column df (l # ls)) = map (\<lambda>r. r @ replicate (length (l # ex)) NA) (rows df)"
        using ex(2) r by simp
      show "set (l # ex) = set (l # ls) - set (columns df)"
        using ex(3) c False by auto
      show "distinct (l # ex)" using ex(3,4) c by auto
    qed
  qed
qed

lemma positions_distinct:
  assumes "distinct cs" "i < length cs"
  shows "positions (cs ! i) cs = [i]"
proof -
  have split: "[0..<length cs] = [0..<i] @ [i] @ [Suc i..<length cs]"
    using assms(2) by (metis append_Cons append_Nil less_imp_le_nat upt_add_eq_append upt_conv_Cons zero_le le_add_diff_inverse)
  have a: "filter (\<lambda>j. cs ! j = cs ! i) [0..<i] = []"
    using assms by (auto simp: filter_empty_conv nth_eq_iff_index_eq)
  have b: "filter (\<lambda>j. cs ! j = cs ! i) [Suc i..<length cs] = []"
    using assms by (auto simp: filter_empty_conv nth_eq_iff_index_eq)
  show ?thesis unfolding positions_def by (subst split) (simp add: a b)
qed

lemma nth_cell_of:
  "distinct cols \<Longrightarrow> i < length cols \<Longrightarrow> length r = length cols \<Longrightarrow> r ! i = cell_of cols r (cols ! i)"
proof -
  assume a: "distinct cols" "i < length cols" "length r = length cols"
  then have "map_of (zip cols r) (cols ! i) = Some (r ! i)"
    by (simp add: map_of_zip_nth)
  then show ?thesis by (simp add: cell_of_def)
qed


lemma getitem_positions:
  assumes "distinct cs" "set ls \<subseteq> set cs"
  shows "map (\<lambda>i. cs ! i) (concat (map (\<lambda>c. positions c cs) ls)) = ls"
    and "length r = length cs \<Longrightarrow>
         map (\<lambda>i. r ! i) (concat (map (\<lambda>c. positions c cs) ls)) = map (cell_of cs r) ls"
proof -
  have one: "\<exists>i<length cs. positions c cs = [i] \<and> cs ! i = c" if "c \<in> set cs" for c
    using that assms(1) by (metis in_set_conv_nth positions_distinct)
  show "map (\<lambda>i. cs ! i) (concat (map (\<lambda>c. positions c cs) ls)) = ls"
    using assms(2)
  proof (induction ls)
    case Nil
    show ?case by simp
  next
    case (Cons c ls)
    then obtain i where "i < length cs" "positions c cs = [i]" "cs ! i = c"
      using one[of c] by auto
    with Cons show ?case by simp
  qed
  show "map (\<lambda>i. r ! i) (concat (map (\<lambda>c. positions c cs) ls)) = map (cell_of cs r) ls"
    if len: "length r = length cs"
    using assms(2)
  proof (induction ls)
    case Nil
    show ?case by simp
  next
    case (Cons c ls)
    then obtain i where i: "i < length cs" "positions c cs = [i]" "cs ! i = c"
      using one[of c] by auto
    have "r ! i = cell_of cs r c"
      using nth_cell_of[OF assms(1) i(1) len] i(3) by simp
    with Cons i show ?case by simp
  qed
qed

lemma not_unnamed_COLUMNS: "c \<in> set COLUMNS \<Longrightarrow> \<not> is_unnamed c"
  by (auto simp: COLUMNS_def is_unnamed_def py_lower_def lower_char_def)

lemma positions_Date: "positions ''Date'' COLUMNS = [0]"
  by (simp add: positions_def COLUMNS_def upt_rec)

lemma sanitize_remote_df_Some:
  assumes dist: "distinct (columns df)" and wf: "wf_df df"
  shows "sanitize_remote_df P (Some df) =
           Inr \<lparr>columns = COLUMNS, rows = map (canonical_row P (columns df)) (rows df)\<rparr>"
proof -
  define Q where "Q = (\<lambda>c. \<not> is_unnamed c)"
  define df1 where "df1 = loc_columns (map Q (columns df)) df"
  define df2 where "df2 = foldl ensure_column df1 COLUMNS"
  have len: "length r = length (columns df)" if "r \<in> set (rows df)" for r
    using wf that by (simp add: wf_df_def list_all_iff)
  have c1: "columns df1 = filter Q (columns df)"
    by (simp add: df1_def loc_columns_def select_mask_filter)
  have r1: "rows df1 = map (select_mask (map Q (columns df))) (rows df)"
    by (simp add: df1_def loc_columns_def)
  obtain ex where ex: "columns df2 = columns df1 @ ex"
      "rows df2 = map (\<lambda>r. r @ replicate (length ex) NA) (rows df1)"
      "set ex = set COLUMNS - set (columns df1)" "distinct ex"
    using foldl_ensure_column[of df1 COLUMNS] unfolding df2_def by blast
  have d2: "distinct (columns df2)"
    using ex dist by (auto simp: c1)
  have sub: "set COLUMNS \<subseteq> set (columns df2)"
    using ex by auto
  have all: "list_all (\<lambda>c. c \<in> set (columns df2)) COLUMNS"
    using sub by (auto simp: list_all_iff)
  define row2 where
    "row2 = (\<lambda>r. select_mask (map Q (columns df)) r @ replicate (length ex) NA)"
  have r2: "rows df2 = map row2 (rows df)"
    by (simp add: ex(2) r1 row2_def)
  have len2: "length (row2 r) = length (columns df2)" if "r \<in> set (rows df)" for r
    using len[OF that] length_select_mask[of r "columns df" Q]
    by (simp add: row2_def ex(1) c1 select_mask_filter)
  have cell2: "cell_of (columns df2) (row2 r) c = cell_of (columns df) r c"
    if "r \<in> set (rows df)" "c \<in> set COLUMNS" for r c
  proof -
    have q: "Q c" using that(2) not_unnamed_COLUMNS by (simp add: Q_def)
    have l: "length (select_mask (map Q (columns df)) r) = length (filter Q (columns df))"
      using length_select_mask[OF len[OF that(1)], of Q] by (simp add: select_mask_filter)
    show ?thesis
      unfolding row2_def ex(1) c1
      using cell_of_append_NA[OF l, of ex c] cell_of_select_mask[of r "columns df" Q c] len[OF that(1)] q
      by (simp add: select_mask_filter)
  qed
  define df3 where
    "df3 = \<lparr>columns = COLUMNS, rows = map (\<lambda>r. map (cell_of (columns df) r) COLUMNS) (rows df)\<rparr>"
  have g: "getitem_list COLUMNS df2 = Inr df3"
  proof -
    have "map (\<lambda>i. row2 r ! i) (concat (map (\<lambda>c. positions c (columns df2)) COLUMNS))
            = map (cell_of (columns df) r) COLUMNS" if "r \<in> set (rows df)" for r
      using getitem_positions(2)[OF d2 sub len2[OF that]] cell2[OF that] by simp
    then show ?thesis
      unfolding getitem_list_def df3_def
      using all getitem_positions(1)[OF d2 sub] by (simp add: r2 Let_def)
  qed
  define s where "s = map (\<lambda>r. cell_of (columns df) r ''Date'') (rows df)"
  have gs: "getitem_series ''Date'' df3 = Inr s"
    by (simp add: getitem_series_def df3_def positions_Date[unfolded COLUMNS_def] s_def COLUMNS_def)
  define df4 where "df4 = setitem ''Date'' (map (\<lambda>x. dt_date (to_datetime P x)) s) df3"
  have e4: "df4 = \<lparr>columns = COLUMNS,
       rows = map (\<lambda>r. [dt_date (to_datetime P (cell_of (columns df) r ''Date'')),
                         cell_of (columns df) r ''Weekday'', cell_of (columns df) r ''Name'',
                         cell_of (columns df) r ''Activity'', cell_of (columns df) r ''Time''])
                  (rows df)\<rparr>"
    by (simp add: df4_def setitem_def df3_def s_def COLUMNS_def zip_map_map zip_same_conv_map)
  define s' where
    "s' = map (\<lambda>r. dt_date (to_datetime P (cell_of (columns df) r ''Date''))) (rows df)"
  have gs': "getitem_series ''Date'' df4 = Inr s'"
    by (simp add: getitem_series_def e4 s'_def positions_Date[unfolded COLUMNS_def] COLUMNS_def)
  have fin: "setitem ''Weekday'' (map (\<lambda>x. dt_strftime_A (to_datetime P x)) s') df4
        = \<lparr>columns = COLUMNS, rows = map (canonical_row P (columns df)) (rows df)\<rparr>"
    by (simp add: setitem_def e4 s'_def COLUMNS_def zip_map_map zip_same_conv_map
          canonical_row_def Let_def)
  show ?thesis
    unfolding sanitize_remote_df_def
    using g gs gs' fin
    by (simp add: Let_def df1_def[symmetric] df2_def[symmetric] Q_def[symmetric]
          df4_def[symmetric])
qed

lemma cell_of_COLUMNS:
  "cell_of COLUMNS [d, w, n, a, t] ''Date'' = d"
  "cell_of COLUMNS [d, w, n, a, t] ''Weekday'' = w"
  "cell_of COLUMNS [d, w, n, a, t] ''Name'' = n"
  "cell_of COLUMNS [d, w, n, a, t] ''Activity'' = a"
  "cell_of COLUMNS [d, w, n, a, t] ''Time'' = t"
  by (simp_all add: cell_of_def COLUMNS_def)

lemmas date_defs = weekday_name_def weekday_def toordinal_def days_before_year_def
  days_before_month_def days_in_month_def DAYS_BEFORE_MONTH_def DAYS_IN_MONTH_def is_leap_def
  DAY_NAMES_def valid_date_def

lemmas parse_iso_defs = parse_iso_def is_digit_def number_def digit_val_def

lemma parse_iso_examples:
  "parse_iso ''2024-03-15'' = Some (YMD 2024 3 15)"
  "parse_iso ''soon'' = None"
  by (simp_all add: parse_iso_defs date_defs)

lemma weekday_name_examples:
  "weekday_name (YMD 2024 3 15) = ''Friday''"
  by (simp_all add: date_defs)

lemma sanitize_remote_example:
  "sanitize_remote_df parse_iso (Some remote_example) =
     Inr \<lparr>columns = COLUMNS,
          rows = [[DateV (YMD 2024 3 15), Str ''Friday'', Str ''Vinoth'', NA, NA],
                  [NA, NA, Str ''Div'', NA, NA]]\<rparr>"
proof -
  have "distinct (columns remote_example)" "wf_df remote_example"
    by (simp_all add: remote_example_def wf_df_def)
  from sanitize_remote_df_Some[OF this, of parse_iso] show ?thesis
    by (simp add: remote_example_def canonical_row_def cell_of_def parse_iso_examples
          weekday_name_examples)
qed

lemma sanitize_remote_df_None: "sanitize_remote_df P None = Inr empty_df"
  by (simp add: sanitize_remote_df_def)

text \<open>
  C2. For every input table (a set of string columns, with or without the canonical
  columns or index columns named unnamed..., or the null table) sanitize_remote_df raises
  nothing and returns a table with exactly the columns Date, Weekday, Name, Activity, Time
  in that order, one row per input row; a Date cell that cannot be read as a date becomes
  null.
\<close>

theorem sanitize_remote_df_canonical_columns:
  assumes "table_ok dfo"
  shows "\<exists>out. sanitize_remote_df P dfo = Inr out \<and> columns out = COLUMNS \<and> wf_df out \<and>
           (\<forall>df. dfo = Some df \<longrightarrow>
              length (rows out) = length (rows df) \<and>
              (\<forall>i s. i < length (rows df) \<and>
                     cell_of (columns df) (rows df ! i) ''Date'' = Str s \<and> P s = None
                       \<longrightarrow> cell_of COLUMNS (rows out ! i) ''Date'' = NA))"
proof (cases dfo)
  case None
  then show ?thesis
    by (simp add: sanitize_remote_df_None empty_df_def wf_df_def)
next
  case (Some df)
  with assms have ok: "distinct (columns df)" "wf_df df"
    by (simp_all add: table_ok_def)
  let ?out = "\<lparr>columns = COLUMNS, rows = map (canonical_row P (columns df)) (rows df)\<rparr>"
  have eq: "sanitize_remote_df P dfo = Inr ?out"
    using sanitize_remote_df_Some[OF ok] Some by simp
  have wf: "wf_df ?out"
    by (simp add: wf_df_def list_all_iff canonical_row_def Let_def COLUMNS_def)
  have bad: "cell_of COLUMNS (rows ?out ! i) ''Date'' = NA"
    if "i < length (rows df)" "cell_of (columns df) (rows df ! i) ''Date'' = Str s" "P s = None"
    for i s
    using that by (simp add: canonical_row_def Let_def cell_of_COLUMNS)
  show ?thesis
    using eq wf bad Some by auto
qed

theorem sanitize_remote_df_canonical_columns_witness:
  "table_ok (Some remote_example) \<and>
   (\<exists>out. sanitize_remote_df parse_iso (Some remote_example) = Inr out \<and>
          columns out = [''Date'', ''Weekday'', ''Name'', ''Activity'', ''Time''] \<and>
          length (rows out) = 2 \<and> cell_of COLUMNS (rows out ! 1) ''Date'' = NA)"
proof -
  have ok: "table_ok (Some remote_example)"
    by (simp add: table_ok_def remote_example_def wf_df_def)
  have c: "cell_of (columns remote_example) (rows remote_example ! 1) ''Date'' = Str ''soon''"
    by (simp add: remote_example_def cell_of_def)
  have p: "parse_iso ''soon'' = None"
    by (rule parse_iso_examples)
  from sanitize_remote_df_canonical_columns[OF ok, of parse_iso] obtain out where out:
    "sanitize_remote_df parse_iso (Some remote_example) = Inr out" "columns out = COLUMNS"
    "length (rows out) = length (rows remote_example)"
    "\<And>i s. i < length (rows remote_example) \<Longrightarrow>
        cell_of (columns remote_example) (rows remote_example ! i) ''Date'' = Str s \<Longrightarrow>
        P' s = None \<Longrightarrow> True"
    "\<forall>i s. i < length (rows remote_example) \<and>
        cell_of (columns remote_example) (rows remote_example ! i) ''Date'' = Str s \<and>
        parse_iso s = None \<longrightarrow> cell_of COLUMNS (rows out ! i) ''Date'' = NA"
    by auto
  have "cell_of COLUMNS (rows out ! 1) ''Date'' = NA"
    using out(5) c p by (simp add: remote_example_def)
  with ok out(1,2,3) show ?thesis
    by (auto simp: COLUMNS_def remote_example_def)
qed

text \<open>
  C3. In every row of the table sanitize_remote_df returns, the Date cell is null or a
  date; Weekday is the English weekday name of that date, and Weekday is null exactly when
  Date is null, whatever the input table stored as Weekday.
\<close>

theorem sanitize_remote_df_weekday:
  assumes "table_ok dfo"
  shows "\<exists>out. sanitize_remote_df P dfo = Inr out \<and>
           (\<forall>r \<in> set (rows out).
              (cell_of COLUMNS r ''Date'' = NA \<or> (\<exists>d. cell_of COLUMNS r ''Date'' = DateV d)) \<and>
              (\<forall>d. cell_of COLUMNS r ''Date'' = DateV d
                     \<longrightarrow> cell_of COLUMNS r ''Weekday'' = Str (weekday_name d)) \<and>
              (cell_of COLUMNS r ''Weekday'' = NA \<longleftrightarrow> cell_of COLUMNS r ''Date'' = NA))"
proof (cases dfo)
  case None
  then show ?thesis
    by (simp add: sanitize_remote_df_None empty_df_def)
next
  case (Some df)
  with assms have ok: "distinct (columns df)" "wf_df df"
    by (simp_all add: table_ok_def)
  have row: "(cell_of COLUMNS r ''Date'' = NA \<or> (\<exists>d. cell_of COLUMNS r ''Date'' = DateV d)) \<and>
             (\<forall>d. cell_of COLUMNS r ''Date'' = DateV d
                    \<longrightarrow> cell_of COLUMNS r ''Weekday'' = Str (weekday_name d)) \<and>
             (cell_of COLUMNS r ''Weekday'' = NA \<longleftrightarrow> cell_of COLUMNS r ''Date'' = NA)"
    if "r = canonical_row P (columns df) r0" for r r0
  proof (cases "to_datetime P (cell_of (columns df) r0 ''Date'')")
    case None
    with that show ?thesis
      by (simp add: canonical_row_def cell_of_COLUMNS)
  next
    case (Some d)
    with that show ?thesis
      by (simp add: canonical_row_def cell_of_COLUMNS)
  qed
  show ?thesis
    using sanitize_remote_df_Some[OF ok, of P] Some row by auto
qed

theorem sanitize_remote_df_weekday_witness:
  "table_ok (Some remote_example) \<and>
   sanitize_remote_df parse_iso (Some remote_example) =
     Inr \<lparr>columns = COLUMNS,
          rows = [[DateV (YMD 2024 3 15), Str ''Friday'', Str ''Vinoth'', NA, NA],
                  [NA, NA, Str ''Div'', NA, NA]]\<rparr> \<and>
   cell_of COLUMNS [DateV (YMD 2024 3 15), Str ''Friday'', Str ''Vinoth'', NA, NA] ''Weekday''
     = Str (weekday_name (YMD 2024 3 15)) \<and>
   cell_of COLUMNS [NA, NA, Str ''Div'', NA, NA] ''Weekday'' = NA"
proof -
  have ok: "table_ok (Some remote_example)"
    by (simp add: table_ok_def remote_example_def wf_df_def)
  note ev = sanitize_remote_example
  from sanitize_remote_df_weekday[OF ok, of parse_iso] ev
  have "\<forall>r \<in> set [[DateV (YMD 2024 3 15), Str ''Friday'', Str ''Vinoth'', NA, NA],
                  [NA, NA, Str ''Div'', NA, NA]].
          (\<forall>d. cell_of COLUMNS r ''Date'' = DateV d
                 \<longrightarrow> cell_of COLUMNS r ''Weekday'' = Str (weekday_name d)) \<and>
          (cell_of COLUMNS r ''Weekday'' = NA \<longleftrightarrow> cell_of COLUMNS r ''Date'' = NA)"
    by auto
  then show ?thesis
    using ok ev by (simp add: cell_of_COLUMNS)
qed

section \<open>Properties of expand_recurring_events\<close>

lemmas calendar_defs = date_defs MAXORDINAL_def date_add_days_def ord2ymd_def Let_def

lemma toordinal_pos: "valid_date d \<Longrightarrow> 0 < toordinal d"
  by (simp add: toordinal_def valid_date_def)

lemma expand_loop_ok:
  assumes "\<forall>i \<in> set js. new_date recurrence d i = Inr (f i)"
  shows "expand_loop d name activity time recurrence js acc =
           Inr (acc @ map (\<lambda>i. event_row name activity time (f i)) js)"
  using assms
  by (induction js arbitrary: acc) (simp_all add: event_row_def)

lemma expand_loop_overflow:
  assumes "\<exists>i \<in> set js. new_date recurrence d i = Inl OverflowError"
    and "\<forall>i \<in> set js. \<forall>e. new_date recurrence d i = Inl e \<longrightarrow> e = OverflowError"
  shows "expand_loop d name activity time recurrence js acc = Inl OverflowError"
  using assms
proof (induction js arbitrary: acc)
  case Nil
  then show ?case by simp
next
  case (Cons j js)
  show ?case
  proof (cases "new_date recurrence d j")
    case (Inl e)
    with Cons.prems(2) show ?thesis by simp
  next
    case (Inr x)
    with Cons.prems have "\<exists>i \<in> set js. new_date recurrence d i = Inl OverflowError"
      by auto
    with Cons.IH Cons.prems(2) Inr show ?thesis by simp
  qed
qed

lemma new_date_error: "new_date recurrence d i = Inl e \<Longrightarrow> e = OverflowError"
  by (auto simp: new_date_def date_add_days_def Let_def split: if_splits)

lemma new_date_fits:
  assumes "valid_date d" "0 \<le> i" "i < n" "last_ordinal recurrence d n \<le> MAXORDINAL"
  shows "\<exists>x. new_date recurrence d i = Inr x"
proof -
  have "0 < toordinal d" using assms(1) by (rule toordinal_pos)
  with assms show ?thesis
    by (auto simp: new_date_def date_add_days_def Let_def last_ordinal_def)
qed


lemma py_range_bounds: "i \<in> set (py_range n) \<Longrightarrow> 0 \<le> i \<and> i < n"
  by (auto simp: py_range_def)

lemma py_range_mem: "k < nat n \<Longrightarrow> int k \<in> set (py_range n)"
  by (simp add: py_range_def)

lemma py_range_nth: "i < nat n \<Longrightarrow> py_range n ! i = int i"
  by (simp add: py_range_def)

lemma length_py_range: "length (py_range n) = nat n"
  by (simp add: py_range_def)

text \<open>
  C4, as the code has it. For a valid start date, a positive count and any mode, when the
  last date to compute is not after 9999-12-31, expand_recurring_events returns exactly
  count rows in order; row i carries the start date for a mode other than Daily and Weekly,
  the start date plus i days for Daily and plus 7 i days for Weekly, then the English
  weekday name of that same date, the name, the activity and the time.
\<close>

theorem expand_recurring_events_rows:
  assumes "valid_date d" "0 < n" "last_ordinal recurrence d n \<le> MAXORDINAL"
  shows "\<exists>rs. expand_recurring_events d name activity time recurrence n
                = Inr \<lparr>columns = COLUMNS, rows = rs\<rparr> \<and>
              length rs = nat n \<and>
              (\<forall>i < nat n. \<exists>x.
                   rs ! i = [DateV x, Str (weekday_name x), Str name, Str activity, Str time] \<and>
                   (recurrence = ''Daily'' \<longrightarrow> date_add_days d (int i) = Inr x) \<and>
                   (recurrence = ''Weekly'' \<longrightarrow> date_add_days d (7 * int i) = Inr x) \<and>
                   (recurrence \<noteq> ''Daily'' \<and> recurrence \<noteq> ''Weekly'' \<longrightarrow> x = d))"
proof -
  define f where "f = (\<lambda>i. case new_date recurrence d i of Inr x \<Rightarrow> x | Inl e \<Rightarrow> d)"
  have ok: "new_date recurrence d i = Inr (f i)" if "i \<in> set (py_range n)" for i
  proof -
    from py_range_bounds[OF that] have "0 \<le> i" "i < n" by simp_all
    from new_date_fits[OF assms(1) this assms(3)] show ?thesis
      by (auto simp: f_def)
  qed
  let ?rs = "map (\<lambda>i. event_row name activity time (f i)) (py_range n)"
  have loop: "expand_loop d name activity time recurrence (py_range n) [] = Inr ?rs"
    using expand_loop_ok[of "py_range n" recurrence d f name activity time "[]"] ok by simp
  have row: "\<exists>x. ?rs ! i = [DateV x, Str (weekday_name x), Str name, Str activity, Str time] \<and>
                 (recurrence = ''Daily'' \<longrightarrow> date_add_days d (int i) = Inr x) \<and>
                 (recurrence = ''Weekly'' \<longrightarrow> date_add_days d (7 * int i) = Inr x) \<and>
                 (recurrence \<noteq> ''Daily'' \<and> recurrence \<noteq> ''Weekly'' \<longrightarrow> x = d)"
    if "i < nat n" for i
  proof -
    have mem: "int i \<in> set (py_range n)"
      using that by (rule py_range_mem)
    have nd: "new_date recurrence d (int i) = Inr (f (int i))"
      using ok[OF mem] .
    have "?rs ! i = event_row name activity time (f (int i))"
      using that by (simp add: length_py_range py_range_nth)
    with nd show ?thesis
      by (intro exI[of _ "f (int i)"]) (auto simp: event_row_def new_date_def split: if_splits)
  qed
  show ?thesis
    using loop row
    by (intro exI[of _ ?rs]) (simp add: expand_recurring_events_def length_py_range)
qed


theorem expand_recurring_events_rows_witness:
  "valid_date (YMD 2024 2 27) \<and> (0::int) < 4 \<and>
   last_ordinal ''Daily'' (YMD 2024 2 27) 4 \<le> MAXORDINAL \<and>
   (\<exists>rs. expand_recurring_events (YMD 2024 2 27) ''Vinoth'' ''gym'' ''6pm'' ''Daily'' 4
            = Inr \<lparr>columns = COLUMNS, rows = rs\<rparr> \<and>
          length rs = 4 \<and>
          rs ! 2 = [DateV (YMD 2024 2 29), Str ''Thursday'', Str ''Vinoth'', Str ''gym'',
                    Str ''6pm''])"
proof -
  have v: "valid_date (YMD 2024 2 27)"
    by (simp add: calendar_defs)
  have l: "last_ordinal ''Daily'' (YMD 2024 2 27) 4 \<le> MAXORDINAL"
    by (simp add: last_ordinal_def calendar_defs)
  have a: "date_add_days (YMD 2024 2 27) 2 = Inr (YMD 2024 2 29)"
    by (simp add: calendar_defs)
  have w: "weekday_name (YMD 2024 2 29) = ''Thursday''"
    by (simp add: calendar_defs)
  from expand_recurring_events_rows[OF v _ l, of "''Vinoth''" "''gym''" "''6pm''"]
  obtain rs where rs:
    "expand_recurring_events (YMD 2024 2 27) ''Vinoth'' ''gym'' ''6pm'' ''Daily'' 4
       = Inr \<lparr>columns = COLUMNS, rows = rs\<rparr>"
    "length rs = nat 4"
    "\<forall>i < nat 4. \<exists>x.
        rs ! i = [DateV x, Str (weekday_name x), Str ''Vinoth'', Str ''gym'', Str ''6pm''] \<and>
        (''Daily'' = ''Daily'' \<longrightarrow> date_add_days (YMD 2024 2 27) (int i) = Inr x) \<and>
        (''Daily'' = ''Weekly'' \<longrightarrow> date_add_days (YMD 2024 2 27) (7 * int i) = Inr x) \<and>
        (''Daily'' \<noteq> ''Daily'' \<and> ''Daily'' \<noteq> ''Weekly'' \<longrightarrow> x = YMD 2024 2 27)"
    by auto
  from rs(3) have "\<exists>x. rs ! 2 = [DateV x, Str (weekday_name x), Str ''Vinoth'', Str ''gym'',
                                   Str ''6pm''] \<and>
                       date_add_days (YMD 2024 2 27) 2 = Inr x"
    by (auto dest!: spec[of _ 2])
  with a w have "rs ! 2 = [DateV (YMD 2024 2 29), Str ''Thursday'', Str ''Vinoth'', Str ''gym'',
                           Str ''6pm'']"
    by auto
  with v l rs(1,2) show ?thesis by auto
qed

text \<open>
  C4 as the claim states it, for every start date, fails: one day after 9999-12-31 there
  is no date, and the call raises instead of returning two rows.
\<close>

theorem expand_recurring_events_counterexample:
  "expand_recurring_events (YMD 9999 12 31) ''Vinoth'' ''gym'' ''6pm'' ''Daily'' 2
     = Inl OverflowError"
proof -
  have r: "py_range 2 = [0, 1]"
    by (simp add: py_range_def upt_rec)
  have a: "date_add_days (YMD 9999 12 31) 0 = Inr (YMD 9999 12 31)"
    by (simp add: calendar_defs)
  have b: "date_add_days (YMD 9999 12 31) 1 = Inl OverflowError"
    by (simp add: calendar_defs)
  show ?thesis
    by (simp add: expand_recurring_events_def r new_date_def a b)
qed

section \<open>The CSV round trip\<close>

lemma digit_val_digit: "digit_val (digit n) = n mod 10"
  by (simp add: digit_val_def digit_def)

lemma is_digit_digit: "is_digit (digit n)"
  by (simp add: is_digit_def digit_def)

lemma decimal4:
  assumes "(y::nat) \<le> 9999"
  shows "1000 * (y div 1000 mod 10) + 100 * (y div 100 mod 10) + 10 * (y div 10 mod 10)
           + y mod 10 = y"
proof -
  define q1 where "q1 = y div 10"
  define q2 where "q2 = q1 div 10"
  define q3 where "q3 = q2 div 10"
  have e2: "y div 100 = q2" by (simp add: q1_def q2_def div_mult2_eq)
  have e3: "y div 1000 = q3" by (simp add: q1_def q2_def q3_def div_mult2_eq)
  have s1: "y = 10 * q1 + y mod 10" by (simp add: q1_def)
  have s2: "q1 = 10 * q2 + q1 mod 10" by (simp add: q2_def)
  have s3: "q2 = 10 * q3 + q2 mod 10" by (simp add: q3_def)
  have "q3 < 10" using assms unfolding e3[symmetric] by simp
  then have s4: "q3 mod 10 = q3" by simp
  have "1000 * q3 + 100 * (q2 mod 10) + 10 * (q1 mod 10) + y mod 10 = y"
    using s1 s2 s3 by linarith
  then show ?thesis by (simp add: e2 e3 s4 q1_def[symmetric])
qed

lemma decimal2:
  assumes "(m::nat) \<le> 99"
  shows "10 * (m div 10 mod 10) + m mod 10 = m"
proof -
  have "m div 10 < 10" using assms by simp
  then show ?thesis by simp
qed

lemma days_in_month_le: assumes "m \<le> 12" shows "days_in_month y m \<le> 31"
proof -
  from assms have "m \<in> set [0..<13]" by simp
  then have "DAYS_IN_MONTH ! m \<le> 31"
    unfolding DAYS_IN_MONTH_def by (auto simp: upt_rec)
  then show ?thesis by (simp add: days_in_month_def)
qed

lemma parse_iso_isoformat:
  assumes "valid_date d"
  shows "parse_iso (isoformat d) = Some d"
proof -
  obtain y m k where d: "d = YMD y m k" by (cases d)
  from assms d have y: "y \<le> 9999" and m: "m \<le> 12" and k': "k \<le> days_in_month y m"
    by (simp_all add: valid_date_def)
  from k' days_in_month_le[OF m, of y] have k: "k \<le> 31" by simp
  have ny: "1000 * (y div 1000 mod 10) + 100 * (y div 100 mod 10) + 10 * (y div 10 mod 10)
              + y mod 10 = y"
    using y by (rule decimal4)
  have nm: "10 * (m div 10 mod 10) + m mod 10 = m"
    using m by (intro decimal2) simp
  have nk: "10 * (k div 10 mod 10) + k mod 10 = k"
    using k by (intro decimal2) simp
  have num: "number (take 4 (isoformat d)) = y"
    "number (take 2 (drop 5 (isoformat d))) = m"
    "number (take 2 (drop 8 (isoformat d))) = k"
    using ny nm nk
    by (simp_all add: isoformat_def d number_def digit_val_digit algebra_simps)
  have shape: "length (isoformat d) = 10" "isoformat d ! 4 = CHR ''-''" "isoformat d ! 7 = CHR ''-''"
    "list_all is_digit (take 4 (isoformat d) @ take 2 (drop 5 (isoformat d))
                          @ take 2 (drop 8 (isoformat d)))"
    by (simp_all add: isoformat_def is_digit_digit)
  show ?thesis
    unfolding parse_iso_def using assms
    by (simp only: shape num Let_def d[symmetric] simp_thms if_True)
qed


lemma isoformat_not_NA: "isoformat d \<notin> set NA_VALUES"
  by (simp add: NA_VALUES_def isoformat_def)

lemma canonical_cellsE:
  assumes "canonical_cells r"
  obtains d w n a t where "r = [d, w, n, a, t]"
    "d = NA \<or> (\<exists>x. d = DateV x \<and> valid_date x)"
    "\<forall>c \<in> {w, n, a, t}. \<forall>x. c \<noteq> DateV x"
  using assms
  by (auto simp: canonical_cells_def split: list.splits cell.splits)

lemma reread_date_text:
  assumes "d = NA \<or> (\<exists>x. d = DateV x \<and> valid_date x)"
    and "\<forall>x. valid_date x \<longrightarrow> P (isoformat x) = Some x"
  shows "dt_date (to_datetime P (read_field (field_text (date_text d)))) = d"
    and "dt_date (to_datetime P d) = d"
  using assms isoformat_not_NA
  by (auto simp: read_field_def NA_VALUES_def)

lemma round_trip_row:
  assumes "canonical_cells r" and "\<forall>x. valid_date x \<longrightarrow> P (isoformat x) = Some x"
  shows "canonical_row P COLUMNS
           (map read_field (map field_text
              (map (\<lambda>(n, x). if n = ''Date'' then date_text (r ! 0) else x) (zip COLUMNS r))))
         = reread_text_cells (canonical_row P COLUMNS r)"
proof -
  from assms(1) obtain d w n a t where r: "r = [d, w, n, a, t]"
    and d: "d = NA \<or> (\<exists>x. d = DateV x \<and> valid_date x)"
    by (rule canonical_cellsE)
  have z: "map (\<lambda>(n, x). if n = ''Date'' then date_text (r ! 0) else x) (zip COLUMNS r)
             = [date_text d, w, n, a, t]"
    by (simp add: r COLUMNS_def)
  show ?thesis
    unfolding z
    using reread_date_text[OF d assms(2)]
    by (simp add: r canonical_row_def cell_of_COLUMNS reread_text_cells_def reread_def Let_def)
qed

lemma canonical_table_ok:
  assumes "canonical T"
  shows "distinct (columns T) \<and> wf_df T"
proof -
  have "length r = 5" if "r \<in> set (rows T)" for r
  proof -
    from assms that have "canonical_cells r" by (simp add: canonical_def list_all_iff)
    then show ?thesis by (auto elim: canonical_cellsE)
  qed
  with assms show ?thesis
    by (simp add: canonical_def wf_df_def list_all_iff COLUMNS_def)
qed

lemma zip_map_self: "zip xs (map g xs) = map (\<lambda>x. (x, g x)) xs"
  by (induction xs) simp_all

lemma round_trip_eq:
  assumes "canonical T" and "\<forall>x. valid_date x \<longrightarrow> P (isoformat x) = Some x"
  shows "round_trip P irregular T =
           Inr \<lparr>columns = COLUMNS,
                rows = map (\<lambda>r. reread_text_cells (canonical_row P COLUMNS r)) (rows T)\<rparr>"
proof -
  have cols: "columns T = COLUMNS" using assms(1) by (simp add: canonical_def)
  have cc: "canonical_cells r" if "r \<in> set (rows T)" for r
    using assms(1) that by (simp add: canonical_def list_all_iff)
  have len: "length r = 5" if "r \<in> set (rows T)" for r
    using cc[OF that] by (auto elim: canonical_cellsE)
  define up where
    "up = (\<lambda>r. map (\<lambda>(n, x). if n = ''Date'' then date_text (r ! 0) else x) (zip COLUMNS r))"
  have lenup: "length (up r) = 5" if "r \<in> set (rows T)" for r
    using len[OF that] by (simp add: up_def COLUMNS_def)
  have gs: "getitem_series ''Date'' T = Inr (map (\<lambda>r. r ! 0) (rows T))"
    by (simp add: getitem_series_def cols positions_Date)
  have si: "setitem ''Date'' (map (date_text \<circ> (\<lambda>r. r ! 0)) (rows T)) T
              = \<lparr>columns = COLUMNS, rows = map up (rows T)\<rparr>"
    by (simp add: setitem_def cols up_def zip_map_self COLUMNS_def)
  define doc where "doc = \<lparr>header = COLUMNS, records = map (\<lambda>r. map field_text (up r)) (rows T)\<rparr>"
  have cc': "csv_content T = Inr doc"
    by (simp add: csv_content_def gs si to_csv_def doc_def)
  have reg: "regular doc"
    using lenup by (auto simp: regular_def doc_def list_all_iff COLUMNS_def)
  define T' where
    "T' = \<lparr>columns = COLUMNS, rows = map (\<lambda>r. map read_field (map field_text (up r))) (rows T)\<rparr>"
  have rd: "read_csv irregular doc = Inr T'"
    using reg by (simp add: read_csv_def T'_def doc_def)
  have ok': "distinct (columns T')" "wf_df T'"
    using lenup by (auto simp: T'_def COLUMNS_def wf_df_def list_all_iff)
  have "sanitize_remote_df P (Some T') =
          Inr \<lparr>columns = COLUMNS, rows = map (canonical_row P (columns T')) (rows T')\<rparr>"
    using sanitize_remote_df_Some[OF ok'] .
  also have "map (canonical_row P (columns T')) (rows T')
               = map (\<lambda>r. reread_text_cells (canonical_row P COLUMNS r)) (rows T)"
    using round_trip_row[OF cc assms(2)] by (simp add: T'_def up_def)
  finally show ?thesis
    by (simp add: round_trip_def cc' rd)
qed

text \<open>
  C5, as the code has it. For every canonical table T, serialising T as
  update_schedule_on_github does (dates as ISO strings, a missing date as the empty
  string), reading the CSV back and normalising gives normalize(T) in which every Name,
  Activity and Time cell is what read_csv reads from its text: a text pandas takes as
  missing (the empty string, NA, null, ...) comes back as null. The Date column comes
  back unchanged, and when no such text occurs in T the result is normalize(T) itself.
  The parser of pandas is any P that reads an ISO date back.
\<close>

theorem round_trip_normalize:
  assumes "canonical T" and "\<forall>x. valid_date x \<longrightarrow> P (isoformat x) = Some x"
  shows "\<exists>Y. sanitize_remote_df P (Some T) = Inr Y \<and>
             round_trip P irregular T
               = Inr \<lparr>columns = columns Y, rows = map reread_text_cells (rows Y)\<rparr> \<and>
             map (\<lambda>r. cell_of COLUMNS r ''Date'') (rows Y)
               = map (\<lambda>r. cell_of COLUMNS r ''Date'') (rows T) \<and>
             ((\<forall>r \<in> set (rows T). \<forall>c \<in> set (drop 2 r). reread c = c)
                \<longrightarrow> round_trip P irregular T = Inr Y)"
proof -
  let ?Y = "\<lparr>columns = COLUMNS, rows = map (canonical_row P COLUMNS) (rows T)\<rparr>"
  have cols: "columns T = COLUMNS" using assms(1) by (simp add: canonical_def)
  have cc: "canonical_cells r" if "r \<in> set (rows T)" for r
    using assms(1) that by (simp add: canonical_def list_all_iff)
  have Y: "sanitize_remote_df P (Some T) = Inr ?Y"
    using sanitize_remote_df_Some[of T P] canonical_table_ok[OF assms(1)] cols by simp
  have rt: "round_trip P irregular T
              = Inr \<lparr>columns = columns ?Y, rows = map reread_text_cells (rows ?Y)\<rparr>"
    using round_trip_eq[OF assms, of irregular] by simp
  have dates: "cell_of COLUMNS (canonical_row P COLUMNS r) ''Date'' = cell_of COLUMNS r ''Date''"
    if "r \<in> set (rows T)" for r
  proof -
    from cc[OF that] obtain d w n a t where r: "r = [d, w, n, a, t]"
      and d: "d = NA \<or> (\<exists>x. d = DateV x \<and> valid_date x)"
      by (rule canonical_cellsE)
    from reread_date_text(2)[OF d assms(2)] show ?thesis
      by (simp add: r canonical_row_def cell_of_COLUMNS)
  qed
  have same: "reread_text_cells (canonical_row P COLUMNS r) = canonical_row P COLUMNS r"
    if "r \<in> set (rows T)" "\<forall>c \<in> set (drop 2 r). reread c = c" for r
  proof -
    from cc[OF that(1)] obtain d w n a t where r: "r = [d, w, n, a, t]"
      by (rule canonical_cellsE)
    from that(2) show ?thesis
      by (simp add: r canonical_row_def cell_of_COLUMNS reread_text_cells_def Let_def)
  qed
  have "round_trip P irregular T = Inr ?Y"
    if "\<forall>r \<in> set (rows T). \<forall>c \<in> set (drop 2 r). reread c = c"
    using rt same that by simp
  with Y rt dates show ?thesis
    by (intro exI[of _ ?Y]) simp
qed

lemma canonical_examples: "canonical timed_example" "canonical untimed_example"
  by (simp_all add: canonical_def timed_example_def untimed_example_def canonical_cells_def
        date_defs)

lemma weekday_name_2024_3_15: "weekday_name (YMD 2024 3 15) = ''Friday''"
  by (simp add: date_defs)

lemma sanitize_examples:
  "sanitize_remote_df parse_iso (Some timed_example) = Inr timed_example"
  "sanitize_remote_df parse_iso (Some untimed_example) = Inr untimed_example"
  using sanitize_remote_df_Some[of timed_example parse_iso]
    sanitize_remote_df_Some[of untimed_example parse_iso]
    canonical_table_ok[OF canonical_examples(1)] canonical_table_ok[OF canonical_examples(2)]
  by (simp_all add: timed_example_def untimed_example_def canonical_row_def cell_of_COLUMNS
        weekday_name_2024_3_15)

theorem round_trip_normalize_witness:
  "canonical timed_example \<and>
   sanitize_remote_df parse_iso (Some timed_example) = Inr timed_example \<and>
   round_trip parse_iso (\<lambda>doc. Inl DecodeError) timed_example = Inr timed_example"
proof -
  have p: "\<forall>x. valid_date x \<longrightarrow> parse_iso (isoformat x) = Some x"
    by (simp add: parse_iso_isoformat)
  have keep: "\<forall>r \<in> set (rows timed_example). \<forall>c \<in> set (drop 2 r). reread c = c"
    by (simp add: timed_example_def reread_def read_field_def NA_VALUES_def)
  from round_trip_normalize[OF canonical_examples(1) p, of "\<lambda>doc. Inl DecodeError"]
    sanitize_examples(1) keep
  have "round_trip parse_iso (\<lambda>doc. Inl DecodeError) timed_example = Inr timed_example"
    by auto
  with canonical_examples(1) sanitize_examples(1) show ?thesis by simp
qed

text \<open>
  C5 as the claim states it fails on a canonical table with an event that has no time:
  the empty Time is written as an empty field, which read_csv reads as missing.
\<close>

theorem round_trip_counterexample:
  "canonical untimed_example \<and>
   sanitize_remote_df parse_iso (Some untimed_example)
     = Inr \<lparr>columns = COLUMNS,
            rows = [[DateV (YMD 2024 3 15), Str ''Friday'', Str ''Vinoth'', Str ''gym'',
                     Str []]]\<rparr> \<and>
   round_trip parse_iso (\<lambda>doc. Inl DecodeError) untimed_example
     = Inr \<lparr>columns = COLUMNS,
            rows = [[DateV (YMD 2024 3 15), Str ''Friday'', Str ''Vinoth'', Str ''gym'', NA]]\<rparr> \<and>
   round_trip parse_iso (\<lambda>doc. Inl DecodeError) untimed_example
     \<noteq> sanitize_remote_df parse_iso (Some untimed_example)"
proof -
  have p: "\<forall>x. valid_date x \<longrightarrow> parse_iso (isoformat x) = Some x"
    by (simp add: parse_iso_isoformat)
  have s: "sanitize_remote_df parse_iso (Some untimed_example)
     = Inr \<lparr>columns = COLUMNS,
            rows = [[DateV (YMD 2024 3 15), Str ''Friday'', Str ''Vinoth'', Str ''gym'',
                     Str []]]\<rparr>"
    using sanitize_examples(2) by (simp add: untimed_example_def)
  have r: "round_trip parse_iso (\<lambda>doc. Inl DecodeError) untimed_example
     = Inr \<lparr>columns = COLUMNS,
            rows = [[DateV (YMD 2024 3 15), Str ''Friday'', Str ''Vinoth'', Str ''gym'', NA]]\<rparr>"
    using round_trip_eq[OF canonical_examples(2) p, of "\<lambda>doc. Inl DecodeError"]
    by (simp add: untimed_example_def canonical_row_def cell_of_COLUMNS reread_text_cells_def
          reread_def read_field_def NA_VALUES_def weekday_name_2024_3_15)
  show ?thesis
    using canonical_examples(2) s r by simp
qed

section \<open>Properties of the remote store client\<close>

lemma map_of_put_payload_sha:
  "map_of (put_payload message encoded sha) ''sha'' = (if truthy sha then Some sha else None)"
  by (simp add: put_payload_def)

lemma has_tokenE:
  assumes "has_token token"
  obtains t where "token = Some t" "t \<noteq> []"
  using assms by (auto simp: has_token_def split: option.splits)

text \<open>
  C1. update_schedule_on_github takes no version token from its caller. With a credential
  it sends exactly two requests: the GET of get_github_sha, answered in the state the
  store has at that moment, and then the PUT. The sha of the PUT payload is the one that
  GET returned, and the payload has a sha key exactly when that GET returned a token (a
  status other than 200, a missing or null sha, or an empty one is no token).
\<close>

theorem update_schedule_on_github_fresh_sha:
  assumes "has_token token" and "csv_content df = Inr doc"
  shows "\<exists>t r1 s1 sha p r2 s2.
           token = Some t \<and>
           serve (store w) (get_request token) = (r1, s1) \<and>
           get_github_sha serve token w = (sha, \<lparr>store = s1, sent = sent w @ [get_request token]\<rparr>) \<and>
           sha = (if status_code r1 = 200 then dict_get (json_body r1) ''sha'' else JNull) \<and>
           p = put_payload message (encode doc) sha \<and>
           map_of p ''sha'' = (if truthy sha then Some sha else None) \<and>
           serve s1 (put_request t p) = (r2, s2) \<and>
           update_schedule_on_github encode serve df token message w =
             (Inr (status_code r2 = 200 \<or> status_code r2 = 201, Some (status_code r2),
                   text_body r2),
              \<lparr>store = s2, sent = sent w @ [get_request token, put_request t p]\<rparr>)"
proof -
  from assms(1) obtain t where t: "token = Some t" "t \<noteq> []" by (rule has_tokenE)
  obtain r1 s1 where g: "serve (store w) (get_request token) = (r1, s1)"
    by (cases "serve (store w) (get_request token)")
  define sha where "sha = (if status_code r1 = 200 then dict_get (json_body r1) ''sha'' else JNull)"
  define p where "p = put_payload message (encode doc) sha"
  obtain r2 s2 where u: "serve s1 (put_request t p) = (r2, s2)"
    by (cases "serve s1 (put_request t p)")
  have gs: "get_github_sha serve token w
              = (sha, \<lparr>store = s1, sent = sent w @ [get_request token]\<rparr>)"
    by (simp add: get_github_sha_def http_def g sha_def)
  have up: "update_schedule_on_github encode serve df token message w =
             (Inr (status_code r2 = 200 \<or> status_code r2 = 201, Some (status_code r2),
                   text_body r2),
              \<lparr>store = s2, sent = sent w @ [get_request token, put_request t p]\<rparr>)"
    using t(2)
    by (simp add: update_schedule_on_github_def t(1) assms(2) gs[unfolded t(1)] Let_def
          p_def[symmetric] http_def u)
  show ?thesis
    using t g gs sha_def p_def u up map_of_put_payload_sha[of message "encode doc" sha]
    by blast
qed

lemma csv_content_columns:
  "columns T = COLUMNS \<Longrightarrow>
   csv_content T = Inr (to_csv (setitem ''Date'' (map date_text (map (\<lambda>r. r ! 0) (rows T))) T))"
  by (simp add: csv_content_def getitem_series_def positions_Date)

theorem update_schedule_on_github_fresh_sha_witness:
  "has_token (Some ''tok'') \<and>
   snd (fst (fetch_remote_csv_via_api (\<lambda>j. Inl DecodeError) (\<lambda>doc. Inl DecodeError)
               (mock_store (\<lambda>c. ''S3'')) (Some ''tok'')
               \<lparr>store = Some \<lparr>content = ''old'', version = ''S1''\<rparr>, sent = []\<rparr>))
     = JStr ''S1'' \<and>
   (\<exists>w'. update_schedule_on_github (\<lambda>doc. ''encoded'') (mock_store (\<lambda>c. ''S3''))
            timed_example (Some ''tok'') ''Update schedule''
            \<lparr>store = Some \<lparr>content = ''other'', version = ''S2''\<rparr>, sent = []\<rparr>
          = (Inr (True, Some 200, ''updated''), w') \<and>
        map http_method (sent w') = [GET, PUT] \<and>
        map (\<lambda>rq. map_of (payload rq) ''sha'') (sent w') = [None, Some (JStr ''S2'')] \<and>
        store w' = Some \<lparr>content = ''encoded'', version = ''S3''\<rparr>)"
proof -
  have tok: "has_token (Some ''tok'')"
    by (simp add: has_token_def)
  have cols: "columns timed_example = COLUMNS"
    by (simp add: timed_example_def)
  have f: "snd (fst (fetch_remote_csv_via_api (\<lambda>j. Inl DecodeError) (\<lambda>doc. Inl DecodeError)
               (mock_store (\<lambda>c. ''S3'')) (Some ''tok'')
               \<lparr>store = Some \<lparr>content = ''old'', version = ''S1''\<rparr>, sent = []\<rparr>))
     = JStr ''S1''"
    by (simp add: fetch_remote_csv_via_api_def http_def mock_store_def get_request_def
          auth_headers_def mock_get_def dict_get_def dict_get_default_def)
  from update_schedule_on_github_fresh_sha[OF tok csv_content_columns[OF cols],
      of "mock_store (\<lambda>c. ''S3'')"
         "\<lparr>store = Some \<lparr>content = ''other'', version = ''S2''\<rparr>, sent = []\<rparr>"
         "''Update schedule''" "\<lambda>doc. ''encoded''"]
  show ?thesis
    using tok f
    by (auto simp: mock_store_def get_request_def auth_headers_def mock_get_def dict_get_def
          dict_get_default_def put_request_def put_payload_def mock_put_def)
qed

text \<open>
  The first write, to a blob that does not exist yet: the GET is answered 404, no token is
  found and the payload carries no sha key.
\<close>

lemma first_write_omits_sha:
  "\<exists>w'. update_schedule_on_github (\<lambda>doc. ''encoded'') (mock_store (\<lambda>c. ''S3''))
            timed_example (Some ''tok'') ''Update schedule'' \<lparr>store = None, sent = []\<rparr>
          = (Inr (True, Some 201, ''created''), w') \<and>
        map (\<lambda>rq. map_of (payload rq) ''sha'') (sent w') = [None, None]"
  by (simp add: update_schedule_on_github_def csv_content_columns timed_example_def Let_def
        get_github_sha_def http_def mock_store_def get_request_def auth_headers_def mock_get_def
        dict_get_def dict_get_default_def put_request_def put_payload_def mock_put_def)

text \<open>
  C7. Without a credential (None or the empty string) update_schedule_on_github returns
  the result (False, None, "Missing token") and sends nothing: the requests sent and the
  state of the store are those before the call, so neither the token re-fetch nor the PUT
  happens.
\<close>

theorem update_schedule_on_github_missing_token:
  assumes "\<not> has_token token"
  shows "update_schedule_on_github encode serve df token message w
           = (Inr (False, None, ''Missing token''), w) \<and>
         sent (snd (update_schedule_on_github encode serve df token message w)) = sent w \<and>
         store (snd (update_schedule_on_github encode serve df token message w)) = store w"
  using assms
  by (auto simp: update_schedule_on_github_def has_token_def split: option.splits)

theorem update_schedule_on_github_missing_token_witness:
  "\<not> has_token None \<and> \<not> has_token (Some []) \<and>
   update_schedule_on_github (\<lambda>doc. ''encoded'') (mock_store (\<lambda>c. ''S3'')) timed_example None
       ''Delete event'' \<lparr>store = Some \<lparr>content = ''old'', version = ''S1''\<rparr>, sent = []\<rparr>
     = (Inr (False, None, ''Missing token''),
        \<lparr>store = Some \<lparr>content = ''old'', version = ''S1''\<rparr>, sent = []\<rparr>) \<and>
   update_schedule_on_github (\<lambda>doc. ''encoded'') (mock_store (\<lambda>c. ''S3'')) timed_example (Some [])
       ''Delete event'' \<lparr>store = Some \<lparr>content = ''old'', version = ''S1''\<rparr>, sent = []\<rparr>
     = (Inr (False, None, ''Missing token''),
        \<lparr>store = Some \<lparr>content = ''old'', version = ''S1''\<rparr>, sent = []\<rparr>)"
proof -
  have n: "\<not> has_token None" "\<not> has_token (Some [])"
    by (simp_all add: has_token_def)
  let ?w = "\<lparr>store = Some \<lparr>content = ''old'', version = ''S1''\<rparr>, sent = []\<rparr>"
  from update_schedule_on_github_missing_token[OF n(1), of "\<lambda>doc. ''encoded''"
         "mock_store (\<lambda>c. ''S3'')" timed_example "''Delete event''" ?w]
    update_schedule_on_github_missing_token[OF n(2), of "\<lambda>doc. ''encoded''"
         "mock_store (\<lambda>c. ''S3'')" timed_example "''Delete event''" ?w] n
  show ?thesis by simp
qed

text \<open>
  C6. fetch_remote_csv_via_api sends one GET. It returns (None, None) exactly when the
  status of the answer is not 200. On status 200, when the content cannot be decoded or
  the decoded text cannot be read as CSV, it returns the empty table with the five
  columns together with the sha of that same answer; when both succeed it returns the
  table read, with that sha. No exception of the decoding leaves the function.
\<close>

theorem fetch_remote_csv_via_api_result:
  assumes "serve (store w) (get_request token) = (r, s1)"
  shows "(fst (fetch_remote_csv_via_api decode irregular serve token w) = (None, JNull)
            \<longleftrightarrow> status_code r \<noteq> 200) \<and>
         snd (fetch_remote_csv_via_api decode irregular serve token w)
            = \<lparr>store = s1, sent = sent w @ [get_request token]\<rparr> \<and>
         (status_code r = 200 \<and>
          ((\<exists>e. decode (dict_get_default (json_body r) ''content'' (JStr [])) = Inl e) \<or>
           (\<exists>doc e. decode (dict_get_default (json_body r) ''content'' (JStr [])) = Inr doc \<and>
                     read_csv irregular doc = Inl e))
            \<longrightarrow> fst (fetch_remote_csv_via_api decode irregular serve token w)
                  = (Some empty_df, dict_get (json_body r) ''sha'')) \<and>
         (\<forall>doc t. status_code r = 200 \<and>
                  decode (dict_get_default (json_body r) ''content'' (JStr [])) = Inr doc \<and>
                  read_csv irregular doc = Inr t
            \<longrightarrow> fst (fetch_remote_csv_via_api decode irregular serve token w)
                  = (Some t, dict_get (json_body r) ''sha''))"
  using assms
  by (auto simp: fetch_remote_csv_via_api_def http_def Let_def split: sum.splits)

theorem fetch_remote_csv_via_api_result_witness:
  "fetch_remote_csv_via_api (\<lambda>j. Inl DecodeError) (\<lambda>doc. Inl DecodeError)
       (mock_store (\<lambda>c. ''S3'')) (Some ''tok'')
       \<lparr>store = Some \<lparr>content = ''%%%'', version = ''S1''\<rparr>, sent = []\<rparr>
     = ((Some empty_df, JStr ''S1''),
        \<lparr>store = Some \<lparr>content = ''%%%'', version = ''S1''\<rparr>,
         sent = [get_request (Some ''tok'')]\<rparr>) \<and>
   fetch_remote_csv_via_api (\<lambda>j. Inl DecodeError) (\<lambda>doc. Inl DecodeError)
       (mock_store (\<lambda>c. ''S3'')) (Some ''tok'') \<lparr>store = None, sent = []\<rparr>
     = ((None, JNull), \<lparr>store = None, sent = [get_request (Some ''tok'')]\<rparr>)"
proof -
  let ?b = "Some \<lparr>content = ''%%%'', version = ''S1''\<rparr>"
  have a: "mock_store (\<lambda>c. ''S3'') (store \<lparr>store = ?b, sent = []\<rparr>) (get_request (Some ''tok''))
             = (mock_get ?b, ?b)"
    by (simp add: mock_store_def get_request_def auth_headers_def)
  have b: "mock_store (\<lambda>c. ''S3'') (store \<lparr>store = None, sent = []\<rparr>) (get_request (Some ''tok''))
             = (mock_get None, None)"
    by (simp add: mock_store_def get_request_def auth_headers_def)
  from fetch_remote_csv_via_api_result[where serve = "mock_store (\<lambda>c. ''S3'')"
         and w = "\<lparr>store = ?b, sent = []\<rparr>" and token = "Some ''tok''"
         and decode = "\<lambda>j. Inl DecodeError" and irregular = "\<lambda>doc. Inl DecodeError", OF a]
    fetch_remote_csv_via_api_result[where serve = "mock_store (\<lambda>c. ''S3'')"
         and w = "\<lparr>store = None, sent = []\<rparr>" and token = "Some ''tok''"
         and decode = "\<lambda>j. Inl DecodeError" and irregular = "\<lambda>doc. Inl DecodeError", OF b]
  show ?thesis
    by (auto simp: mock_get_def dict_get_def dict_get_default_def prod_eq_iff)
qed

section \<open>Properties of the delete step\<close>

lemma select_mask_map: "select_mask (map Q xs) (map f xs) = map f (filter Q xs)"
  by (induction xs) (auto simp: select_mask_def)

lemma row_label_total:
  assumes "length r = 5"
  shows "\<exists>l. row_label COLUMNS r = Inr l"
proof -
  from assms obtain a b c d e where "r = [a, b, c, d, e]"
    by (auto simp: length_Suc_conv eval_nat_numeral)
  then show ?thesis
    by (simp add: row_label_def format_field_def row_get_def COLUMNS_def)
qed

lemma apply_rows_total:
  assumes "\<forall>r \<in> set rs. f r = Inr (g r)"
  shows "apply_rows f rs = Inr (map (\<lambda>r. Str (g r)) rs)"
  using assms by (induction rs) simp_all

lemma positions_Label: "positions ''Label'' (COLUMNS @ [''Label'']) = [5]"
  by (simp add: positions_def COLUMNS_def upt_rec)

lemma drop_label_column:
  assumes "length r = 5"
  shows "select_mask (map (\<lambda>c. c \<noteq> ''Label'') (COLUMNS @ [''Label''])) (r @ [x]) = r"
proof -
  from assms obtain a b c d e where "r = [a, b, c, d, e]"
    by (auto simp: length_Suc_conv eval_nat_numeral)
  then show ?thesis
    by (simp add: select_mask_def COLUMNS_def)
qed

text \<open>
  C10. For a fetched table with the five columns and a selected label that is the label
  of at least one row, the delete handler uploads the table whose rows are exactly the
  rows whose label differs from the selected one, unchanged and in their original order:
  every row with the selected label is removed, also when several rows carry it.
\<close>

theorem delete_event_removes_label:
  assumes "columns df = COLUMNS" and "wf_df df"
    and "\<exists>r \<in> set (rows df). row_label COLUMNS r = Inr l"
  shows "delete_event df (Some l) =
           Inr (Some \<lparr>columns = COLUMNS,
                      rows = filter (\<lambda>r. row_label COLUMNS r \<noteq> Inr l) (rows df)\<rparr>)"
proof -
  define g where "g = (\<lambda>r. case row_label COLUMNS r of Inr x \<Rightarrow> x | Inl e \<Rightarrow> [])"
  have len: "length r = 5" if "r \<in> set (rows df)" for r
    using assms(1,2) that by (simp add: wf_df_def list_all_iff COLUMNS_def)
  have lab: "row_label COLUMNS r = Inr (g r)" if "r \<in> set (rows df)" for r
    using row_label_total[OF len[OF that]] by (auto simp: g_def)
  have ne: "rows df \<noteq> []" using assms(3) by auto
  define f where "f = (\<lambda>r. r @ [Str (g r)])"
  define labelled where "labelled = \<lparr>columns = COLUMNS @ [''Label''], rows = map f (rows df)\<rparr>"
  have ap: "apply_rows (row_label COLUMNS) (rows df) = Inr (map (\<lambda>r. Str (g r)) (rows df))"
    using apply_rows_total[of "rows df" "row_label COLUMNS" g] lab by simp
  have si: "setitem ''Label'' (map (\<lambda>r. Str (g r)) (rows df)) df = labelled"
    by (simp add: setitem_def assms(1) COLUMNS_def labelled_def f_def zip_map_self)
  have wl: "with_label df = Inr labelled"
    using ne by (simp add: with_label_def assms(1) ap si)
  have f5: "f r ! 5 = Str (g r)" if "r \<in> set (rows df)" for r
    using len[OF that] by (simp add: f_def nth_append)
  have gs: "getitem_series ''Label'' labelled = Inr (map (\<lambda>r. Str (g r)) (rows df))"
    using f5 by (simp add: getitem_series_def labelled_def positions_Label)
  have m1: "label_mask True (Some l) (map (\<lambda>r. Str (g r)) (rows df)) = map (\<lambda>r. g r = l) (rows df)"
    by (simp add: label_mask_def)
  have m2: "label_mask False (Some l) (map (\<lambda>r. Str (g r)) (rows df))
              = map (\<lambda>r. g r \<noteq> l) (rows df)"
    by (simp add: label_mask_def)
  have td: "rows (loc_rows (map (\<lambda>r. g r = l) (rows df)) labelled) \<noteq> []"
  proof -
    from assms(3) obtain r where "r \<in> set (rows df)" "row_label COLUMNS r = Inr l" by auto
    with lab[of r] have "r \<in> set (filter (\<lambda>r. g r = l) (rows df))" by simp
    then show ?thesis
      by (auto simp: loc_rows_def labelled_def select_mask_map filter_empty_conv)
  qed
  have kept: "loc_rows (map (\<lambda>r. g r \<noteq> l) (rows df)) labelled
                = \<lparr>columns = COLUMNS @ [''Label''], rows = map f (filter (\<lambda>r. g r \<noteq> l) (rows df))\<rparr>"
    by (simp add: loc_rows_def labelled_def select_mask_map)
  have drop: "map (select_mask (map (\<lambda>c. c \<noteq> ''Label'') (COLUMNS @ [''Label''])))
                (map f (filter (\<lambda>r. g r \<noteq> l) (rows df)))
              = filter (\<lambda>r. g r \<noteq> l) (rows df)"
  proof -
    have "select_mask (map (\<lambda>c. c \<noteq> ''Label'') (COLUMNS @ [''Label''])) (f r) = r"
      if "r \<in> set (rows df)" for r
      using drop_label_column[OF len[OF that]] by (simp only: f_def)
    then have "map (\<lambda>r. select_mask (map (\<lambda>c. c \<noteq> ''Label'') (COLUMNS @ [''Label''])) (f r))
                 (filter (\<lambda>r. g r \<noteq> l) (rows df))
               = map (\<lambda>r. r) (filter (\<lambda>r. g r \<noteq> l) (rows df))"
      by (intro map_cong) auto
    then show ?thesis
      by (simp only: map_map o_def map_ident)
  qed
  have cols: "select_mask (map (\<lambda>c. c \<noteq> ''Label'') (COLUMNS @ [''Label''])) (COLUMNS @ [''Label''])
                = COLUMNS"
    by (simp add: select_mask_def COLUMNS_def)
  have flt: "filter (\<lambda>r. g r \<noteq> l) (rows df) = filter (\<lambda>r. row_label COLUMNS r \<noteq> Inr l) (rows df)"
    using lab by (intro filter_cong) auto
  have "delete_selected labelled (Some l) =
          Inr (Some \<lparr>columns = COLUMNS, rows = filter (\<lambda>r. g r \<noteq> l) (rows df)\<rparr>)"
    using td
    by (simp add: delete_selected_def gs m1 m2 kept Let_def loc_columns_def
          drop[simplified] cols[simplified])
  then show ?thesis
    by (simp add: delete_event_def wl flt)
qed

lemma isoformat_2024_3_15: "isoformat (YMD 2024 3 15) = ''2024-03-15''"
  by (simp add: isoformat_def digit_def, code_simp)

lemma row_label_examples:
  "row_label COLUMNS [DateV (YMD 2024 3 15), Str ''Friday'', Str ''Vinoth'', Str ''gym'', Str ''6pm'']
     = Inr ''2024-03-15 | Friday | Vinoth - gym @ 6pm''"
  "row_label COLUMNS [NA, NA, Str ''Div'', NA, Str ''noon''] = Inr ''NaT | nan | Div - nan @ noon''"
  by (simp_all add: row_label_def format_field_def row_get_def COLUMNS_def isoformat_2024_3_15)

theorem delete_event_removes_label_witness:
  "columns duplicate_example = COLUMNS \<and> wf_df duplicate_example \<and>
   row_label COLUMNS (rows duplicate_example ! 0) = Inr ''2024-03-15 | Friday | Vinoth - gym @ 6pm'' \<and>
   delete_event duplicate_example (Some ''2024-03-15 | Friday | Vinoth - gym @ 6pm'')
     = Inr (Some \<lparr>columns = COLUMNS, rows = [[NA, NA, Str ''Div'', NA, Str ''noon'']]\<rparr>)"
proof -
  have c: "columns duplicate_example = COLUMNS"
    by (simp add: duplicate_example_def)
  have w: "wf_df duplicate_example"
    by (simp add: duplicate_example_def wf_df_def COLUMNS_def)
  have l: "row_label COLUMNS (rows duplicate_example ! 0)
             = Inr ''2024-03-15 | Friday | Vinoth - gym @ 6pm''"
    by (simp add: duplicate_example_def row_label_examples)
  have e: "\<exists>r \<in> set (rows duplicate_example).
             row_label COLUMNS r = Inr ''2024-03-15 | Friday | Vinoth - gym @ 6pm''"
    by (simp add: duplicate_example_def row_label_examples)
  from delete_event_removes_label[OF c w e] c w l show ?thesis
    by (simp add: duplicate_example_def row_label_examples)
qed

section \<open>Properties of parse_event\<close>

lemma rmatch_Seq_iff:
  "x \<in> set (rmatch (Seq a b) st) \<longleftrightarrow> (\<exists>m \<in> set (rmatch a st). x \<in> set (rmatch b m))"
  by auto

lemma rmatch_keeps:
  "(s', g') \<in> set (rmatch r (s, g)) \<Longrightarrow> map_of g n \<noteq> None \<Longrightarrow> map_of g' n \<noteq> None"
proof (induction r arbitrary: s g s' g')
  case (Seq a b)
  from Seq.prems(1) obtain m where m: "m \<in> set (rmatch a (s, g))" "(s', g') \<in> set (rmatch b m)"
    by auto
  obtain ms mg where mm: "m = (ms, mg)" by (cases m)
  from Seq.IH(1)[of ms mg s g] m(1) mm Seq.prems(2) have "map_of mg n \<noteq> None" by simp
  with Seq.IH(2)[of s' g' ms mg] m(2) mm show ?case by simp
next
  case (Opt a)
  then show ?case by auto
next
  case (Group k a)
  then show ?case by (auto split: if_splits)
qed (auto split: list.splits if_splits)

lemma rmatch_binds:
  "binds n r \<Longrightarrow> (s', g') \<in> set (rmatch r (s, g)) \<Longrightarrow> map_of g' n \<noteq> None"
proof (induction r arbitrary: s g s' g')
  case (Seq a b)
  from Seq.prems(2) obtain ms mg where m: "(ms, mg) \<in> set (rmatch a (s, g))"
      "(s', g') \<in> set (rmatch b (ms, mg))"
    by auto
  show ?case
  proof (cases "binds n a")
    case True
    from Seq.IH(1)[OF True m(1)] have "map_of mg n \<noteq> None" .
    with rmatch_keeps[OF m(2)] show ?thesis by simp
  next
    case False
    with Seq.prems(1) have "binds n b" by simp
    from Seq.IH(2)[OF this m(2)] show ?thesis .
  qed
next
  case (Group k a)
  then show ?case by (auto split: if_splits)
qed simp_all

lemma re_search_SomeD:
  "re_search r inp = Some g \<Longrightarrow> \<exists>p u s'. inp = p @ u \<and> (s', g) \<in> set (rmatch r (u, []))"
proof (induction inp)
  case Nil
  then show ?case by (auto split: list.splits)
next
  case (Cons c cs)
  show ?case
  proof (cases "rmatch r (c # cs, [])")
    case Nil
    with Cons.prems have "re_search r cs = Some g" by simp
    from Cons.IH[OF this] obtain p u s' where "cs = p @ u" "(s', g) \<in> set (rmatch r (u, []))"
      by blast
    then have "c # cs = (c # p) @ u \<and> (s', g) \<in> set (rmatch r (u, []))" by simp
    then show ?thesis by blast
  next
    case (Cons x xs)
    with Cons.prems obtain s' where "x = (s', g)" by (cases x) auto
    with Cons have "c # cs = [] @ (c # cs) \<and> (s', g) \<in> set (rmatch r (c # cs, []))" by simp
    then show ?thesis by blast
  qed
qed

lemma binds_PATTERN: "binds 1 PATTERN" "binds 3 PATTERN"
  by (simp_all add: PATTERN_def FOR_CLAUSE_def)

lemma re_search_groups:
  assumes "re_search PATTERN inp = Some g"
  shows "\<exists>a n. group g 1 = Some a \<and> group g 3 = Some n"
proof -
  from re_search_SomeD[OF assms] obtain u s' where m: "(s', g) \<in> set (rmatch PATTERN (u, []))"
    by blast
  from rmatch_binds[OF binds_PATTERN(1) m] rmatch_binds[OF binds_PATTERN(2) m]
  show ?thesis by (auto simp: group_def)
qed












lemma parse_event_cases:
  "parse_event resolve inp =
     (case re_search PATTERN inp of
        None \<Rightarrow> Inr None
      | Some g \<Rightarrow>
          Inr (map_option
                 (\<lambda>d. \<lparr>Date = d, Weekday = weekday_name d, Name = py_strip (the (group g 3)),
                        Activity = py_strip (the (group g 1)), Time = strip_or (group g 4) []\<rparr>)
                 (resolve (strip_or (group g 2) ''today''))))"
proof (cases "re_search PATTERN inp")
  case None
  then show ?thesis by (simp add: parse_event_def)
next
  case (Some g)
  from re_search_groups[OF Some] obtain a n where "group g 1 = Some a" "group g 3 = Some n"
    by blast
  with Some show ?thesis
    by (simp add: parse_event_def strip_group_def Let_def split: option.splits)
qed


lemma gym_on_Wednesday:
  "re_search PATTERN ''Add gym on Wednesday for Vinoth''
     = Some [(3, ''Vinoth''), (2, ''Wednesday''), (1, ''gym'')]"
  by code_simp

lemma py_strip_examples:
  "py_strip ''gym'' = ''gym''" "py_strip ''Vinoth'' = ''Vinoth''"
  "py_strip ''Wednesday'' = ''Wednesday''"
  by code_simp+



lemma first_match_Seq_skip:
  assumes "rmatch a st = pre @ m # ms"
    and "\<And>y. y \<in> set pre \<Longrightarrow> rmatch b y = []"
    and "first_match b m = Some x"
  shows "first_match (Seq a b) st = Some x"
proof -
  have c: "concat (map (rmatch b) pre) = []"
    using assms(2) by (induction pre) simp_all
  from assms(3) obtain xs where r: "rmatch b m = x # xs"
    by (auto simp: first_match_def split: list.splits)
  show ?thesis
    unfolding first_match_def rmatch.simps assms(1) by (simp add: c r)
qed

lemma first_match_Seq_hd:
  assumes "first_match a st = Some m" and "first_match b m = Some x"
  shows "first_match (Seq a b) st = Some x"
proof -
  from assms(1) obtain ms where "rmatch a st = [] @ m # ms"
    by (auto simp: first_match_def split: list.splits)
  from first_match_Seq_skip[OF this _ assms(2)] show ?thesis by simp
qed

lemma first_match_Opt_take:
  "first_match a st = Some m \<Longrightarrow> first_match (Opt a) st = Some m"
  by (auto simp: first_match_def split: list.splits)

lemma first_match_Opt_skip:
  "rmatch a st = [] \<Longrightarrow> first_match (Opt a) st = Some st"
  by (simp add: first_match_def)

lemma first_match_word:
  assumes "keyword w k" and "first_match r (rest, g) = Some x"
  shows "first_match (word w r) (k @ rest, g) = Some x"
  using assms(1)
proof (induction w arbitrary: k)
  case Nil
  then show ?case using assms(2) by (simp add: keyword_def py_lower_def)
next
  case (Cons c cs)
  then obtain d ds where k: "k = d # ds" "lower_char d = c" "keyword cs ds"
    by (auto simp: keyword_def py_lower_def)
  from Cons.IH[OF k(3)] have "first_match (word cs r) (ds @ rest, g) = Some x" .
  moreover have "first_match (Atom (Letter c)) (k @ rest, g) = Some (ds @ rest, g)"
    using k by (simp add: first_match_def)
  ultimately show ?case
    by (simp add: first_match_Seq_hd del: rmatch.simps)
qed

lemma plus_greedy_Nil: "rest = [] \<or> \<not> p (hd rest) \<Longrightarrow> plus_greedy p rest = []"
  by (cases rest) auto

lemma plus_greedy_hd:
  assumes "b \<noteq> []" "list_all p b" "rest = [] \<or> \<not> p (hd rest)"
  shows "\<exists>ys. plus_greedy p (b @ rest) = rest # ys"
  using assms(1,2)
proof (induction b)
  case Nil
  then show ?case by simp
next
  case (Cons c b)
  show ?case
  proof (cases "b = []")
    case True
    with Cons.prems plus_greedy_Nil[of rest p] assms(3) show ?thesis by simp
  next
    case False
    with Cons obtain ys where "plus_greedy p (b @ rest) = rest # ys" by auto
    with Cons.prems show ?thesis by simp
  qed
qed

lemma first_match_Plus:
  assumes "b \<noteq> []" "list_all (in_class k) b" "rest = [] \<or> \<not> in_class k (hd rest)"
  shows "first_match (Plus k) (b @ rest, g) = Some (rest, g)"
  using plus_greedy_hd[OF assms] by (auto simp: first_match_def)

lemma in_class_Space: "in_class Space = py_isspace"
  by (rule ext) simp

lemma first_match_blank:
  assumes "blank b" "rest = [] \<or> \<not> py_isspace (hd rest)"
  shows "first_match (Plus Space) (b @ rest, g) = Some (rest, g)"
  using assms by (intro first_match_Plus) (simp_all add: blank_def in_class_Space)

lemma plus_lazy_split:
  assumes "w \<noteq> []" "list_all p w"
  shows "\<exists>ys. plus_lazy p (w @ rest) = map (\<lambda>i. drop i w @ rest) [1..<length w] @ rest # ys"
  using assms
proof (induction w)
  case Nil
  then show ?case by simp
next
  case (Cons c w)
  show ?case
  proof (cases "w = []")
    case True
    with Cons.prems show ?thesis by simp
  next
    case False
    with Cons obtain ys where
      ys: "plus_lazy p (w @ rest) = map (\<lambda>i. drop i w @ rest) [1..<length w] @ rest # ys"
      by auto
    have "0 < length w" using False by simp
    then have "[1..<Suc (length w)] = 1 # [Suc 1..<Suc (length w)]"
      by (intro upt_conv_Cons) simp
    moreover have "map Suc [1..<length w] = [Suc 1..<Suc (length w)]"
      by (rule map_Suc_upt)
    ultimately have "[1..<length (c # w)] = 1 # map Suc [1..<length w]"
      by simp
    then have "map (\<lambda>i. drop i (c # w) @ rest) [1..<length (c # w)]
                 = (w @ rest) # map (\<lambda>i. drop i w @ rest) [1..<length w]"
      by (simp add: o_def)
    with Cons.prems ys show ?thesis by simp
  qed
qed

lemma first_match_lazy_group:
  assumes "w \<noteq> []" "list_all (in_class k) w"
    and "\<And>v h. v \<noteq> [] \<Longrightarrow> set v \<subseteq> set w \<Longrightarrow> rmatch b (v @ rest, h) = []"
    and "first_match b (rest, (n, w) # g) = Some x"
  shows "first_match (Seq (Group n (LazyPlus k)) b) (w @ rest, g) = Some x"
proof -
  from plus_lazy_split[OF assms(1,2), of rest] obtain ys where
    ys: "plus_lazy (in_class k) (w @ rest)
           = map (\<lambda>i. drop i w @ rest) [1..<length w] @ rest # ys"
    by blast
  define K where
    "K = (\<lambda>s'::string. (s', (n, take (length (w @ rest) - length s') (w @ rest)) # g))"
  have r: "rmatch (Group n (LazyPlus k)) (w @ rest, g)
             = map K (map (\<lambda>i. drop i w @ rest) [1..<length w]) @ K rest # map K ys"
    by (simp add: ys K_def o_def)
  have Kr: "K rest = (rest, (n, w) # g)"
    by (simp add: K_def)
  have fail: "rmatch b y = []" if "y \<in> set (map K (map (\<lambda>i. drop i w @ rest) [1..<length w]))"
    for y
  proof -
    from that obtain i where i: "1 \<le> i" "i < length w" "y = K (drop i w @ rest)"
      by auto
    have "drop i w \<noteq> []" "set (drop i w) \<subseteq> set w"
      using i(2) by (simp_all add: set_drop_subset)
    from assms(3)[OF this] i(3) show ?thesis
      by (simp add: K_def)
  qed
  from first_match_Seq_skip[OF r fail] assms(4) Kr show ?thesis by simp
qed

lemma first_match_greedy_group:
  assumes "t \<noteq> []" "list_all (in_class k) t"
  shows "first_match (Group n (Plus k)) (t, g) = Some ([], (n, t) # g)"
proof -
  from plus_greedy_hd[of t "in_class k" "[]"] assms obtain ys where
    "plus_greedy (in_class k) t = [] # ys" by auto
  then show ?thesis by (simp add: first_match_def)
qed

lemma re_search_first:
  assumes "first_match r (s, []) = Some (s', g)"
  shows "re_search r s = Some g"
  using assms by (cases s) (auto simp: first_match_def split: list.splits)

lemma lower_char_space: "py_isspace d \<Longrightarrow> lower_char d = d"
  by (auto simp: py_isspace_def lower_char_def Let_def)

lemma keyword_hd:
  assumes "keyword (c # cs) k" "\<not> py_isspace c"
  shows "k \<noteq> []" "\<not> py_isspace (hd k)" "lower_char (hd k) = c"
proof -
  from assms(1) obtain d ds where k: "k = d # ds" "lower_char d = c"
    by (auto simp: keyword_def py_lower_def)
  then show "k \<noteq> []" "lower_char (hd k) = c" by simp_all
  from k assms(2) lower_char_space[of d] show "\<not> py_isspace (hd k)" by auto
qed

lemma letters_not_space:
  "\<not> py_isspace (CHR ''a'')" "\<not> py_isspace (CHR ''o'')" "\<not> py_isspace (CHR ''f'')"
  by (simp_all add: py_isspace_def)

lemma one_word_hd:
  assumes "one_word w"
  shows "w \<noteq> []" "\<not> py_isspace (hd w)" "list_all (in_class Dot) w"
    "\<And>v. v \<noteq> [] \<Longrightarrow> set v \<subseteq> set w \<Longrightarrow> \<not> py_isspace (hd v)"
proof -
  from assms show w: "w \<noteq> []" by (simp add: one_word_def)
  from assms have ns: "\<forall>c \<in> set w. \<not> py_isspace c" by (simp add: one_word_def list_all_iff)
  with w show "\<not> py_isspace (hd w)" by simp
  have "py_isspace (CHR 0x0A)" by (simp add: py_isspace_def)
  with ns show "list_all (in_class Dot) w" by (auto simp: list_all_iff)
  show "\<not> py_isspace (hd v)" if "v \<noteq> []" "set v \<subseteq> set w" for v
    using that ns by (metis hd_in_set subsetD)
qed

lemma no_blank_start:
  assumes "v \<noteq> []" "\<not> py_isspace (hd v)"
  shows "rmatch (Plus Space) (v @ rest, h) = []"
    and "rmatch (Seq (Plus Space) r) (v @ rest, h) = []"
proof -
  from assms have "plus_greedy (in_class Space) (v @ rest) = []"
    by (intro plus_greedy_Nil) (simp add: in_class_Space)
  then show "rmatch (Plus Space) (v @ rest, h) = []"
    and "rmatch (Seq (Plus Space) r) (v @ rest, h) = []" by simp_all
qed

lemma in_class_Dot: "in_class Dot = (\<lambda>c. c \<noteq> CHR 0x0A)"
  by (rule ext) simp

lemma first_match_End: "first_match EndOfString ([], g) = Some ([], g)"
  by (simp add: first_match_def)

text \<open>The captures after the optional clauses.\<close>

lemma first_match_at:
  assumes "at_clause_ok at"
  shows "first_match (Seq (Opt AT_CLAUSE) EndOfString) (at_clause at, g)
           = Some ([], (case at of None \<Rightarrow> g | Some (b, k, b', t) \<Rightarrow> (4, t) # g))"
proof (cases at)
  case None
  have "rmatch AT_CLAUSE ([], g) = []" by (simp add: AT_CLAUSE_def)
  from first_match_Opt_skip[OF this] first_match_End[of g] None show ?thesis
    by (simp add: first_match_Seq_hd del: rmatch.simps)
next
  case (Some q)
  obtain b k b' t where q: "q = (b, k, b', t)" by (cases q)
  with assms Some have ok: "blank b" "keyword ''at'' k" "blank b'" "time_phrase t" by simp_all
  from ok(4) have t: "t \<noteq> []" "\<not> py_isspace (hd t)" "list_all (in_class Dot) t"
    by (simp_all add: time_phrase_def in_class_Dot)
  have 1: "first_match (Group 4 (Plus Dot)) (t, g) = Some ([], (4, t) # g)"
    using t by (intro first_match_greedy_group)
  have 2: "first_match (Plus Space) (b' @ t, g) = Some (t, g)"
    using ok(3) t by (intro first_match_blank) simp_all
  have 3: "first_match (Seq (Plus Space) (Group 4 (Plus Dot))) (b' @ t, g) = Some ([], (4, t) # g)"
    using 2 1 by (rule first_match_Seq_hd)
  have 4: "first_match (word ''at'' (Seq (Plus Space) (Group 4 (Plus Dot)))) (k @ b' @ t, g)
             = Some ([], (4, t) # g)"
    using ok(2) 3 by (rule first_match_word)
  have 5: "first_match (Plus Space) (b @ k @ b' @ t, g) = Some (k @ b' @ t, g)"
    using ok(1) keyword_hd[OF ok(2) letters_not_space(1)]
    by (intro first_match_blank) simp_all
  have "first_match AT_CLAUSE (b @ k @ b' @ t, g) = Some ([], (4, t) # g)"
    unfolding AT_CLAUSE_def using 5 4 by (rule first_match_Seq_hd)
  from first_match_Opt_take[OF this] first_match_End[of "(4, t) # g"] Some q show ?thesis
    by (simp add: first_match_Seq_hd del: rmatch.simps)
qed

lemma name_fails:
  assumes "v \<noteq> []" "\<not> py_isspace (hd v)"
  shows "rmatch (Seq (Opt AT_CLAUSE) EndOfString) (v @ rest, h) = []"
proof -
  have a: "rmatch AT_CLAUSE (v @ rest, h) = []"
    unfolding AT_CLAUSE_def using assms by (rule no_blank_start(2))
  have "py_isspace (CHR 0x0A)" by (simp add: py_isspace_def)
  with assms have "v @ rest \<noteq> []" "v @ rest \<noteq> [CHR 0x0A]"
    by (auto simp: append_eq_Cons_conv)
  then have b: "rmatch EndOfString (v @ rest, h) = []" by simp
  show ?thesis
    unfolding rmatch.simps(4,5) a using b by simp
qed

lemma first_match_for:
  assumes "keyword ''for'' kfor" "blank b5" "one_word n" "at_clause_ok at"
  shows "first_match FOR_CLAUSE (kfor @ b5 @ n @ at_clause at, g)
           = Some ([], (case at of None \<Rightarrow> (3, n) # g | Some (b, k, b', t) \<Rightarrow> (4, t) # (3, n) # g))"
proof -
  let ?end = "Seq (Opt AT_CLAUSE) EndOfString"
  let ?x = "([], (case at of None \<Rightarrow> (3, n) # g | Some (b, k, b', t) \<Rightarrow> (4, t) # (3, n) # g))"
  note w = one_word_hd[OF assms(3)]
  have 1: "first_match ?end (at_clause at, (3, n) # g) = Some ?x"
    using first_match_at[OF assms(4), of "(3, n) # g"] by (simp split: option.splits)
  have 2: "first_match (Seq (Group 3 (LazyPlus Dot)) ?end) (n @ at_clause at, g) = Some ?x"
    using w(1,3) _ 1
  proof (rule first_match_lazy_group)
    fix v h assume "v \<noteq> []" "set v \<subseteq> set n"
    with w(4) show "rmatch ?end (v @ at_clause at, h) = []"
      by (intro name_fails) simp_all
  qed
  have 3: "first_match (Plus Space) (b5 @ n @ at_clause at, g) = Some (n @ at_clause at, g)"
    using assms(2) w(1,2) by (intro first_match_blank) simp_all
  have 4: "first_match (Seq (Plus Space) (Seq (Group 3 (LazyPlus Dot)) ?end))
             (b5 @ n @ at_clause at, g) = Some ?x"
    using 3 2 by (rule first_match_Seq_hd)
  show ?thesis
    unfolding FOR_CLAUSE_def using assms(1) 4 by (rule first_match_word)
qed

lemma first_match_on_for:
  assumes "on_clause_ok on" "keyword ''for'' kfor" "blank b5" "one_word n" "at_clause_ok at"
  shows "first_match (Seq (Opt ON_CLAUSE) FOR_CLAUSE)
           (on_clause on @ kfor @ b5 @ n @ at_clause at, g)
         = Some ([], (case at of None \<Rightarrow> [] | Some (b, k, b', t) \<Rightarrow> [(4, t)]) @ (3, n) #
                     (case on of None \<Rightarrow> [] | Some (k, b, p, b') \<Rightarrow> [(2, p)]) @ g)"
proof -
  let ?rest = "kfor @ b5 @ n @ at_clause at"
  note f = keyword_hd[OF assms(2) letters_not_space(3)]
  have fc: "first_match FOR_CLAUSE (?rest, h)
               = Some ([], (case at of None \<Rightarrow> [] | Some (b, k, b', t) \<Rightarrow> [(4, t)]) @ (3, n) # h)"
    for h
    using first_match_for[OF assms(2,3,4,5), of h] by (simp split: option.splits)
  show ?thesis
  proof (cases on)
    case None
    have "lower_char (hd kfor) \<noteq> CHR ''o''" using f(3) by simp
    with f(1) have "rmatch ON_CLAUSE (?rest, g) = []"
      by (cases kfor) (simp_all add: ON_CLAUSE_def)
    from first_match_Opt_skip[OF this] fc[of g] None show ?thesis
      by (simp add: first_match_Seq_hd del: rmatch.simps)
  next
    case (Some q)
    obtain k b p b' where q: "q = (k, b, p, b')" by (cases q)
    with assms(1) Some have ok: "keyword ''on'' k" "blank b" "one_word p" "blank b'"
      by simp_all
    note w = one_word_hd[OF ok(3)]
    have 1: "first_match (Plus Space) (b' @ ?rest, (2, p) # g) = Some (?rest, (2, p) # g)"
      using ok(4) f by (intro first_match_blank) simp_all
    have 2: "first_match (Seq (Group 2 (LazyPlus Dot)) (Plus Space)) (p @ b' @ ?rest, g)
               = Some (?rest, (2, p) # g)"
      using w(1,3) _ 1
    proof (rule first_match_lazy_group)
      fix v h assume "v \<noteq> []" "set v \<subseteq> set p"
      with w(4) show "rmatch (Plus Space) (v @ b' @ ?rest, h) = []"
        by (intro no_blank_start(1)) simp_all
    qed
    have 3: "first_match (Plus Space) (b @ p @ b' @ ?rest, g) = Some (p @ b' @ ?rest, g)"
      using ok(2) w(1,2) by (intro first_match_blank) simp_all
    have 4: "first_match (Seq (Plus Space) (Seq (Group 2 (LazyPlus Dot)) (Plus Space)))
               (b @ p @ b' @ ?rest, g) = Some (?rest, (2, p) # g)"
      using 3 2 by (rule first_match_Seq_hd)
    have "first_match ON_CLAUSE (k @ b @ p @ b' @ ?rest, g) = Some (?rest, (2, p) # g)"
      unfolding ON_CLAUSE_def using ok(1) 4 by (rule first_match_word)
    from first_match_Opt_take[OF this] fc[of "(2, p) # g"] Some q show ?thesis
      by (simp add: first_match_Seq_hd del: rmatch.simps)
  qed
qed

lemma on_clause_hd:
  assumes "on_clause_ok on" "keyword ''for'' kfor"
  shows "on_clause on @ kfor @ rest \<noteq> []" "\<not> py_isspace (hd (on_clause on @ kfor @ rest))"
proof -
  note f = keyword_hd[OF assms(2) letters_not_space(3)]
  show "on_clause on @ kfor @ rest \<noteq> []" using f(1) by simp
  show "\<not> py_isspace (hd (on_clause on @ kfor @ rest))"
  proof (cases on)
    case None
    with f show ?thesis by simp
  next
    case (Some q)
    obtain k b p b' where q: "q = (k, b, p, b')" by (cases q)
    with assms(1) Some have "keyword ''on'' k" by simp
    from keyword_hd[OF this letters_not_space(2)] Some q show ?thesis by simp
  qed
qed

lemma first_match_PATTERN:
  assumes "keyword ''add'' kadd" "blank b1" "one_word a" "blank b2" "on_clause_ok on"
    "keyword ''for'' kfor" "blank b5" "one_word n" "at_clause_ok at"
  shows "first_match PATTERN (kadd @ b1 @ a @ b2 @ on_clause on @ kfor @ b5 @ n @ at_clause at, [])
         = Some ([], (case at of None \<Rightarrow> [] | Some (b, k, b', t) \<Rightarrow> [(4, t)]) @ (3, n) #
                     (case on of None \<Rightarrow> [] | Some (k, b, p, b') \<Rightarrow> [(2, p)]) @ [(1, a)])"
proof -
  let ?tail = "on_clause on @ kfor @ b5 @ n @ at_clause at"
  let ?x = "([], (case at of None \<Rightarrow> [] | Some (b, k, b', t) \<Rightarrow> [(4, t)]) @ (3, n) #
                 (case on of None \<Rightarrow> [] | Some (k, b, p, b') \<Rightarrow> [(2, p)]) @ [(1, a)])"
  let ?R = "Seq (Plus Space) (Seq (Opt ON_CLAUSE) FOR_CLAUSE)"
  note w = one_word_hd[OF assms(3)]
  note h = on_clause_hd[OF assms(5,6), of "b5 @ n @ at_clause at"]
  have 1: "first_match (Plus Space) (b2 @ ?tail, [(1, a)]) = Some (?tail, [(1, a)])"
    using assms(4) h by (intro first_match_blank) simp_all
  have 2: "first_match ?R (b2 @ ?tail, [(1, a)]) = Some ?x"
    using 1 first_match_on_for[OF assms(5,6,7,8,9), of "[(1, a)]"]
    by (rule first_match_Seq_hd)
  have 3: "first_match (Seq (Group 1 (LazyPlus Dot)) ?R) (a @ b2 @ ?tail, []) = Some ?x"
    using w(1,3) _ 2
  proof (rule first_match_lazy_group)
    fix v h assume "v \<noteq> []" "set v \<subseteq> set a"
    with w(4) show "rmatch ?R (v @ b2 @ ?tail, h) = []"
      by (intro no_blank_start(2)) simp_all
  qed
  have 4: "first_match (Plus Space) (b1 @ a @ b2 @ ?tail, []) = Some (a @ b2 @ ?tail, [])"
    using assms(2) w(1,2) by (intro first_match_blank) simp_all
  have 5: "first_match (Seq (Plus Space) (Seq (Group 1 (LazyPlus Dot)) ?R))
             (b1 @ a @ b2 @ ?tail, []) = Some ?x"
    using 4 3 by (rule first_match_Seq_hd)
  show ?thesis
    unfolding PATTERN_def using assms(1) 5 by (rule first_match_word)
qed

lemma dropWhile_none: "\<forall>x \<in> set xs. \<not> P x \<Longrightarrow> dropWhile P xs = xs"
  by (cases xs) auto

lemma py_strip_one_word: "one_word w \<Longrightarrow> py_strip w = w"
  by (simp add: one_word_def py_strip_def list_all_iff dropWhile_none)

lemma parse_event_sentence:
  assumes "keyword ''add'' kadd" "blank b1" "one_word a" "blank b2" "on_clause_ok on"
    "keyword ''for'' kfor" "blank b5" "one_word n" "at_clause_ok at"
  shows "parse_event resolve (kadd @ b1 @ a @ b2 @ on_clause on @ kfor @ b5 @ n @ at_clause at)
         = Inr (map_option
                  (\<lambda>d. \<lparr>Date = d, Weekday = weekday_name d, Name = n, Activity = a,
                         Time = time_of at\<rparr>)
                  (resolve (date_phrase_of on)))"
proof -
  let ?g = "(case at of None \<Rightarrow> [] | Some (b, k, b', t) \<Rightarrow> [(4, t)]) @ (3, n) #
            (case on of None \<Rightarrow> [] | Some (k, b, p, b') \<Rightarrow> [(2, p)]) @ [(1, a)]"
  have s: "re_search PATTERN (kadd @ b1 @ a @ b2 @ on_clause on @ kfor @ b5 @ n @ at_clause at)
             = Some ?g"
    using first_match_PATTERN[OF assms] by (rule re_search_first)
  have g1: "group ?g 1 = Some a" and g3: "group ?g 3 = Some n"
    by (auto simp: group_def split: option.splits)
  have g2: "strip_or (group ?g 2) ''today'' = date_phrase_of on"
  proof (cases on)
    case None
    then show ?thesis by (auto simp: group_def strip_or_def split: option.splits)
  next
    case (Some q)
    obtain k b p b' where q: "q = (k, b, p, b')" by (cases q)
    with assms(5) Some have "one_word p" by simp
    with py_strip_one_word[OF this] Some q show ?thesis
      by (auto simp: group_def strip_or_def one_word_def split: option.splits)
  qed
  have g4: "strip_or (group ?g 4) [] = time_of at"
  proof (cases at)
    case None
    then show ?thesis by (auto simp: group_def strip_or_def split: option.splits)
  next
    case (Some q)
    obtain b k b' t where q: "q = (b, k, b', t)" by (cases q)
    with Some show ?thesis
      by (auto simp: group_def strip_or_def py_strip_def)
  qed
  show ?thesis
    unfolding parse_event_cases s
    by (simp only: option.case g1 g2 g3 g4 option.sel py_strip_one_word[OF assms(3)]
          py_strip_one_word[OF assms(8)])
qed

lemma plus_lazy_shorter: "s' \<in> set (plus_lazy p s) \<Longrightarrow> length s' < length s"
  by (induction s) (auto split: if_splits)

lemma plus_greedy_shorter: "s' \<in> set (plus_greedy p s) \<Longrightarrow> length s' < length s"
  by (induction s) (auto split: if_splits)

lemma rmatch_captures_nonempty:
  "groups_repeat r \<Longrightarrow> (s', g') \<in> set (rmatch r (s, g)) \<Longrightarrow>
   \<forall>x \<in> set g. snd x \<noteq> [] \<Longrightarrow> \<forall>x \<in> set g'. snd x \<noteq> []"
proof (induction r arbitrary: s g s' g')
  case (Seq a b)
  from Seq.prems(2) obtain ms mg where m: "(ms, mg) \<in> set (rmatch a (s, g))"
      "(s', g') \<in> set (rmatch b (ms, mg))"
    by auto
  from Seq.prems(1) have "groups_repeat a" "groups_repeat b" by simp_all
  from Seq.IH(2)[OF this(2) m(2) Seq.IH(1)[OF this(1) m(1) Seq.prems(3)]] show ?case .
next
  case (Opt a)
  from Opt.prems(2) have "(s', g') \<in> set (rmatch a (s, g)) \<or> g' = g" by auto
  then show ?case
  proof
    assume m: "(s', g') \<in> set (rmatch a (s, g))"
    from Opt.prems(1) have "groups_repeat a" by simp
    from Opt.IH[OF this m Opt.prems(3)] show ?thesis .
  next
    assume "g' = g"
    with Opt.prems(3) show ?thesis by simp
  qed
next
  case (Group n a)
  from Group.prems(1) obtain k where a: "a = Plus k \<or> a = LazyPlus k"
    by (cases a) simp_all
  from Group.prems(2) a have g': "g' = (n, take (length s - length s') s) # g"
    and "s' \<in> set (plus_greedy (in_class k) s) \<or> s' \<in> set (plus_lazy (in_class k) s)"
    by auto
  then have "length s' < length s"
    by (auto dest: plus_greedy_shorter plus_lazy_shorter)
  then have "take (length s - length s') s \<noteq> []" by auto
  with g' Group.prems(3) show ?case by simp
qed (auto split: list.splits if_splits)

lemma groups_repeat_PATTERN: "groups_repeat PATTERN"
  by (simp add: PATTERN_def FOR_CLAUSE_def ON_CLAUSE_def AT_CLAUSE_def)

lemma re_search_group_nonempty:
  assumes "re_search PATTERN inp = Some g" "group g i = Some x"
  shows "x \<noteq> []"
proof -
  from re_search_SomeD[OF assms(1)] obtain u s' where "(s', g) \<in> set (rmatch PATTERN (u, []))"
    by blast
  from rmatch_captures_nonempty[OF groups_repeat_PATTERN this] have "\<forall>x \<in> set g. snd x \<noteq> []"
    by simp
  moreover from assms(2) have "(i, x) \<in> set g"
    by (simp add: group_def map_of_SomeD)
  ultimately show ?thesis by force
qed

text \<open>
  C8. When the pattern add <activity> [on <date-phrase>] for <name> [at <time-phrase>]
  is found in the text (letters in either case), groups 1 and 3 are set and parse_event
  returns the record with the stripped activity and name, the date the resolver gives for
  the stripped date phrase, or for "today" when there is no on clause, the weekday name
  of that date, and the stripped time phrase, or the empty string when there is no at
  clause (None when the resolver gives no date). For "Add gym on Wednesday for Vinoth"
  the activity is gym, the name Vinoth, the time empty and the date the one the resolver
  gives for "Wednesday". Every sentence written after the grammar from one-word parts,
  with or without either optional clause, is parsed into exactly its parts.
\<close>

theorem parse_event_grammar:
  "(\<forall>g. re_search PATTERN inp = Some g \<longrightarrow>
        (\<exists>activity name.
            group g 1 = Some activity \<and> group g 3 = Some name \<and>
            parse_event resolve inp =
              Inr (map_option
                     (\<lambda>d. \<lparr>Date = d, Weekday = weekday_name d, Name = py_strip name,
                            Activity = py_strip activity,
                            Time = (case group g 4 of None \<Rightarrow> [] | Some t \<Rightarrow> py_strip t)\<rparr>)
                     (resolve (case group g 2 of None \<Rightarrow> ''today'' | Some p \<Rightarrow> py_strip p))))) \<and>
   parse_event resolve ''Add gym on Wednesday for Vinoth'' =
     Inr (map_option
            (\<lambda>d. \<lparr>Date = d, Weekday = weekday_name d, Name = ''Vinoth'', Activity = ''gym'',
                   Time = []\<rparr>)
            (resolve ''Wednesday'')) \<and>
   (\<forall>kadd b1 a b2 on kfor b5 n at.
       keyword ''add'' kadd \<and> blank b1 \<and> one_word a \<and> blank b2 \<and> on_clause_ok on \<and>
       keyword ''for'' kfor \<and> blank b5 \<and> one_word n \<and> at_clause_ok at
       \<longrightarrow> parse_event resolve
             (kadd @ b1 @ a @ b2 @ on_clause on @ kfor @ b5 @ n @ at_clause at)
           = Inr (map_option
                    (\<lambda>d. \<lparr>Date = d, Weekday = weekday_name d, Name = n, Activity = a,
                           Time = time_of at\<rparr>)
                    (resolve (date_phrase_of on))))"
proof (intro conjI allI impI)
  fix g
  assume s: "re_search PATTERN inp = Some g"
  from re_search_groups[OF s] obtain a n where an: "group g 1 = Some a" "group g 3 = Some n"
    by blast
  have p: "strip_or (group g 2) ''today''
             = (case group g 2 of None \<Rightarrow> ''today'' | Some p \<Rightarrow> py_strip p)"
    using re_search_group_nonempty[OF s, of 2]
    by (auto simp: strip_or_def split: option.splits)
  have t: "strip_or (group g 4) [] = (case group g 4 of None \<Rightarrow> [] | Some t \<Rightarrow> py_strip t)"
    by (auto simp: strip_or_def py_strip_def split: option.splits)
  show "\<exists>activity name.
            group g 1 = Some activity \<and> group g 3 = Some name \<and>
            parse_event resolve inp =
              Inr (map_option
                     (\<lambda>d. \<lparr>Date = d, Weekday = weekday_name d, Name = py_strip name,
                            Activity = py_strip activity,
                            Time = (case group g 4 of None \<Rightarrow> [] | Some t \<Rightarrow> py_strip t)\<rparr>)
                     (resolve (case group g 2 of None \<Rightarrow> ''today'' | Some p \<Rightarrow> py_strip p)))"
    unfolding parse_event_cases s using an p t by simp
next
  show "parse_event resolve ''Add gym on Wednesday for Vinoth'' =
     Inr (map_option
            (\<lambda>d. \<lparr>Date = d, Weekday = weekday_name d, Name = ''Vinoth'', Activity = ''gym'',
                   Time = []\<rparr>)
            (resolve ''Wednesday''))"
    unfolding parse_event_cases gym_on_Wednesday
    by (simp add: group_def strip_or_def py_strip_examples)
next
  fix kadd b1 a b2 on kfor b5 n at
  assume "keyword ''add'' kadd \<and> blank b1 \<and> one_word a \<and> blank b2 \<and> on_clause_ok on \<and>
       keyword ''for'' kfor \<and> blank b5 \<and> one_word n \<and> at_clause_ok at"
  then show "parse_event resolve
             (kadd @ b1 @ a @ b2 @ on_clause on @ kfor @ b5 @ n @ at_clause at)
           = Inr (map_option
                    (\<lambda>d. \<lparr>Date = d, Weekday = weekday_name d, Name = n, Activity = a,
                           Time = time_of at\<rparr>)
                    (resolve (date_phrase_of on)))"
    by (intro parse_event_sentence) simp_all
qed

lemma weekday_name_2026_11_4: "weekday_name (YMD 2026 11 4) = ''Wednesday''"
  by (simp add: date_defs)

theorem parse_event_grammar_witness:
  "keyword ''add'' ''Add'' \<and> blank '' '' \<and> one_word ''gym'' \<and>
   on_clause_ok (Some (''on'', '' '', ''Wednesday'', '' '')) \<and> keyword ''for'' ''for'' \<and>
   one_word ''Vinoth'' \<and> at_clause_ok (Some ('' '', ''at'', '' '', ''6 pm'')) \<and>
   parse_event (\<lambda>s. if s = ''Wednesday'' then Some (YMD 2026 11 4) else None)
       ''Add gym on Wednesday for Vinoth at 6 pm''
     = Inr (Some \<lparr>Date = YMD 2026 11 4, Weekday = ''Wednesday'', Name = ''Vinoth'',
                  Activity = ''gym'', Time = ''6 pm''\<rparr>)"
proof -
  let ?R = "\<lambda>s. if s = ''Wednesday'' then Some (YMD 2026 11 4) else None"
  have h: "keyword ''add'' ''Add''" "blank '' ''" "one_word ''gym''"
    "on_clause_ok (Some (''on'', '' '', ''Wednesday'', '' ''))" "keyword ''for'' ''for''"
    "one_word ''Vinoth''" "at_clause_ok (Some ('' '', ''at'', '' '', ''6 pm''))"
    by code_simp+
  have st: "py_strip ''6 pm'' = ''6 pm''" by code_simp
  from parse_event_grammar[of "''Add gym on Wednesday for Vinoth''" ?R]
  have "\<forall>kadd b1 a b2 on kfor b5 n at.
       keyword ''add'' kadd \<and> blank b1 \<and> one_word a \<and> blank b2 \<and> on_clause_ok on \<and>
       keyword ''for'' kfor \<and> blank b5 \<and> one_word n \<and> at_clause_ok at
       \<longrightarrow> parse_event ?R (kadd @ b1 @ a @ b2 @ on_clause on @ kfor @ b5 @ n @ at_clause at)
           = Inr (map_option
                    (\<lambda>d. \<lparr>Date = d, Weekday = weekday_name d, Name = n, Activity = a,
                           Time = time_of at\<rparr>)
                    (?R (date_phrase_of on)))"
    by blast
  from this[rule_format, of "''Add''" "'' ''" "''gym''" "'' ''"
      "Some (''on'', '' '', ''Wednesday'', '' '')" "''for''" "'' ''" "''Vinoth''"
      "Some ('' '', ''at'', '' '', ''6 pm'')"] h
  have "parse_event ?R ''Add gym on Wednesday for Vinoth at 6 pm''
          = Inr (Some \<lparr>Date = YMD 2026 11 4, Weekday = ''Wednesday'', Name = ''Vinoth'',
                       Activity = ''gym'', Time = ''6 pm''\<rparr>)"
    by (simp add: st weekday_name_2026_11_4)
  with h show ?thesis by simp
qed

end
